(* ===== verification/Prelude.thy ===== *)
theory Prelude
  imports
    Main
    "HOL-Library.Word"
    "HOL-Library.Char_ord"
    "HOL-Library.List_Lexorder"
begin

text \<open>
  Prelude of the wiredock development: the machine integer types, Rust's \<open>Result\<close> as a
  sum, and the theorem collections and list lemmas that the components share.

  Conventions used by every theory:
  \<^item> \<open>Result<T, E>\<close> is \<open>'e + 't\<close>, written with the abbreviations \<open>Ok\<close> and \<open>Err\<close>;
  \<^item> a call that can panic returns an \<open>option\<close>, and \<open>None\<close> is the panic;
  \<^item> a \<open>u8\<close>, \<open>u16\<close>, \<open>u32\<close> or \<open>i32\<close> of the program is a word of that width. The
    program's only unchecked arithmetic wraps, as in the release profile of \<open>Cargo.toml\<close>.
\<close>

section \<open>Machine integers\<close>

type_synonym u8 = "8 word"
type_synonym u16 = "16 word"
type_synonym u32 = "32 word"
type_synonym i32 = "32 word" \<comment> \<open>read with \<open>sint\<close>\<close>

section \<open>Results\<close>

abbreviation Ok :: "'a \<Rightarrow> 'e + 'a" where
  "Ok \<equiv> Inr"

abbreviation Err :: "'e \<Rightarrow> 'e + 'a" where
  "Err \<equiv> Inl"

text \<open>The \<open>?\<close> operator, for two results with the same error type.\<close>

fun and_then :: "'e + 'a \<Rightarrow> ('a \<Rightarrow> 'e + 'b) \<Rightarrow> 'e + 'b" where
  "and_then (Inl e) f = Inl e"
| "and_then (Inr x) f = f x"

text \<open>\<open>map_err\<close> of \<open>Result\<close>.\<close>

fun map_err :: "('e \<Rightarrow> 'f) \<Rightarrow> 'e + 'a \<Rightarrow> 'f + 'a" where
  "map_err f (Inl e) = Inl (f e)"
| "map_err f (Inr x) = Inr x"

text \<open>\<open>ok_or\<close> of \<open>Option\<close>.\<close>

fun ok_or :: "'e \<Rightarrow> 'a option \<Rightarrow> 'e + 'a" where
  "ok_or e None = Inl e"
| "ok_or e (Some x) = Inr x"

fun is_ok :: "'e + 'a \<Rightarrow> bool" where
  "is_ok (Inl e) = False"
| "is_ok (Inr x) = True"

lemma and_then_Ok_iff: "and_then r f = Inr y \<longleftrightarrow> (\<exists>x. r = Inr x \<and> f x = Inr y)"
  by (cases r) auto

lemma map_err_Ok_iff [simp]: "map_err f r = Inr y \<longleftrightarrow> r = Inr y"
  by (cases r) auto

lemma ok_or_Ok_iff [simp]: "ok_or e x = Inr y \<longleftrightarrow> x = Some y"
  by (cases x) auto

section \<open>Runs\<close>

text \<open>
  A machine that takes inputs one at a time and may fail. \<open>good\<close> is what the environment
  guarantees of an input in the state that receives it.
\<close>

fun run_steps :: "('x \<Rightarrow> 's \<Rightarrow> 's option) \<Rightarrow> 'x list \<Rightarrow> 's \<Rightarrow> 's option" where
  "run_steps step [] s = Some s"
| "run_steps step (x # xs) s = Option.bind (step x s) (run_steps step xs)"

fun good_run :: "('x \<Rightarrow> 's \<Rightarrow> 's option) \<Rightarrow> ('x \<Rightarrow> 's \<Rightarrow> bool) \<Rightarrow> 'x list \<Rightarrow> 's \<Rightarrow> bool" where
  "good_run step good [] s = True"
| "good_run step good (x # xs) s =
     (good x s \<and> (case step x s of None \<Rightarrow> True | Some s1 \<Rightarrow> good_run step good xs s1))"

locale step_invariant =
  fixes step :: "'x \<Rightarrow> 's \<Rightarrow> 's option"
    and good :: "'x \<Rightarrow> 's \<Rightarrow> bool"
    and inv :: "'s \<Rightarrow> bool"
  assumes preserved: "inv s \<Longrightarrow> good x s \<Longrightarrow> step x s = Some s' \<Longrightarrow> inv s'"
begin

lemma run_preserved:
  "inv s \<Longrightarrow> good_run step good xs s \<Longrightarrow> run_steps step xs s = Some s' \<Longrightarrow> inv s'"
proof (induction xs arbitrary: s)
  case (Cons x xs)
  then obtain s1 where "step x s = Some s1" "run_steps step xs s1 = Some s'"
    by (auto simp: bind_eq_Some_conv)
  with Cons show ?case using preserved [of s x s1] by simp
qed simp

end

text \<open>A step that an abstract machine can follow: its runs are simulated, and keep what the machine keeps.\<close>

locale simulation = step_invariant +
  fixes abs :: "'b \<Rightarrow> 'c"
    and astep :: "'c \<Rightarrow> 'c \<Rightarrow> bool"
  assumes simulated: "inv s \<Longrightarrow> good x s \<Longrightarrow> step x s = Some s' \<Longrightarrow> rtranclp astep (abs s) (abs s')"
begin

lemma run_simulated:
  "inv s \<Longrightarrow> good_run step good xs s \<Longrightarrow> run_steps step xs s = Some s' \<Longrightarrow> rtranclp astep (abs s) (abs s')"
proof (induction xs arbitrary: s)
  case (Cons x xs)
  then obtain s1 where s1: "step x s = Some s1" "run_steps step xs s1 = Some s'"
    by (auto simp: bind_eq_Some_conv)
  with Cons.prems have "inv s1" "good_run step good xs s1" using preserved [of s x s1] by simp_all
  with Cons.IH s1(2) have "rtranclp astep (abs s1) (abs s')" by blast
  with simulated [of s x s1] Cons.prems s1 show ?case by (auto intro: rtranclp_trans)
qed simp

lemma run_keeps:
  assumes "\<And>a b. astep a b \<Longrightarrow> P a \<Longrightarrow> P b" and "P (abs s)"
    and "inv s" and "good_run step good xs s" and "run_steps step xs s = Some s'"
  shows "P (abs s')"
  using run_simulated [OF assms(3-5)] assms(2)
  by (induction rule: rtranclp_induct) (auto intro: assms(1))

end

section \<open>Theorem collections\<close>

named_theorems text_simps \<open>facts about the text functions (splitting, trimming, printing)\<close>
named_theorems reg_defs \<open>definitions of the registry's operations\<close>
named_theorems wf_intros \<open>preservation of the registry's invariant\<close>

section \<open>Lists and words\<close>

lemma filter_True_conv: "(\<And>x. x \<in> set xs \<Longrightarrow> P x) \<Longrightarrow> filter P xs = xs"
  by (simp add: filter_id_conv)

lemma concat_map_singleton [simp]: "concat (map (\<lambda>x. [x]) xs) = xs"
  by (induction xs) auto

lemma unat_inject [simp]: "unat a = unat b \<longleftrightarrow> a = b"
  by (simp add: word_unat_eq_iff)

lemma unat_u8_less: "unat (b :: u8) < 256"
  using unsigned_less [of b] by simp

lemma unat_u16_less: "unat (b :: u16) < 65536"
  using unsigned_less [of b] by simp

lemma unat_u32_less: "unat (b :: u32) < 4294967296"
  using unsigned_less [of b] by simp

end
