(* ===== verification/Rust_Text.thy ===== *)
theory Rust_Text
  imports Prelude
begin

text \<open>
  Rust's text functions as far as wiredock uses them: trimming, splitting, searching,
  integer parsing and printing, and the \<open>Debug\<close> form of characters and strings.

  A Rust string is modelled as the list of its Unicode scalar values, and HOL's \<open>char\<close>
  has the values U+0000 to U+00FF. The model is exact on text of these characters, and says
  nothing about text with characters beyond them.
\<close>

section \<open>Characters\<close>

abbreviation code :: "char \<Rightarrow> nat" where
  "code c \<equiv> of_char c"

text \<open>\<open>char::is_whitespace\<close>.\<close>

definition is_whitespace :: "char \<Rightarrow> bool" where
  "is_whitespace c \<longleftrightarrow> (9 \<le> code c \<and> code c \<le> 13) \<or> code c = 32 \<or> code c = 133 \<or> code c = 160"

definition is_ascii_digit :: "char \<Rightarrow> bool" where
  "is_ascii_digit c \<longleftrightarrow> 48 \<le> code c \<and> code c \<le> 57"

definition is_ascii_hexdigit :: "char \<Rightarrow> bool" where
  "is_ascii_hexdigit c \<longleftrightarrow> is_ascii_digit c \<or> (65 \<le> code c \<and> code c \<le> 70) \<or>
     (97 \<le> code c \<and> code c \<le> 102)"

text \<open>\<open>char::to_digit\<close>.\<close>

definition to_digit :: "nat \<Rightarrow> char \<Rightarrow> nat option" where
  "to_digit radix c =
     (let v = (if is_ascii_digit c then Some (code c - 48)
               else if 97 \<le> code c \<and> code c \<le> 122 then Some (code c - 87)
               else if 65 \<le> code c \<and> code c \<le> 90 then Some (code c - 55)
               else None)
      in case v of None \<Rightarrow> None | Some d \<Rightarrow> if d < radix then Some d else None)"

section \<open>Trimming, splitting, searching\<close>

text \<open>\<open>str::trim\<close>.\<close>

definition trim :: "string \<Rightarrow> string" where
  "trim s = rev (dropWhile is_whitespace (rev (dropWhile is_whitespace s)))"

text \<open>\<open>str::split\<close> with a set of separators: one piece more than separators.\<close>

fun split_on :: "(char \<Rightarrow> bool) \<Rightarrow> string \<Rightarrow> string list" where
  "split_on sep [] = [[]]"
| "split_on sep (c # cs) =
     (if sep c then [] # split_on sep cs
      else (case split_on sep cs of [] \<Rightarrow> [[c]] | w # ws \<Rightarrow> (c # w) # ws))"

fun strip_prefix :: "string \<Rightarrow> string \<Rightarrow> string option" where
  "strip_prefix [] s = Some s"
| "strip_prefix (p # ps) [] = None"
| "strip_prefix (p # ps) (c # cs) = (if p = c then strip_prefix ps cs else None)"

definition starts_with :: "string \<Rightarrow> string \<Rightarrow> bool" where
  "starts_with p s \<longleftrightarrow> strip_prefix p s \<noteq> None"

text \<open>\<open>str::find\<close> and \<open>str::rfind\<close> of a character.\<close>

fun find_char :: "char \<Rightarrow> string \<Rightarrow> nat option" where
  "find_char c [] = None"
| "find_char c (x # xs) = (if x = c then Some 0 else map_option Suc (find_char c xs))"

fun rfind_char :: "char \<Rightarrow> string \<Rightarrow> nat option" where
  "rfind_char c [] = None"
| "rfind_char c (x # xs) =
     (case rfind_char c xs of Some i \<Rightarrow> Some (Suc i) | None \<Rightarrow> if x = c then Some 0 else None)"

text \<open>\<open>str::split_once\<close> and \<open>str::rsplit_once\<close>.\<close>

definition split_once :: "char \<Rightarrow> string \<Rightarrow> (string \<times> string) option" where
  "split_once c s = map_option (\<lambda>i. (take i s, drop (Suc i) s)) (find_char c s)"

definition rsplit_once :: "char \<Rightarrow> string \<Rightarrow> (string \<times> string) option" where
  "rsplit_once c s = map_option (\<lambda>i. (take i s, drop (Suc i) s)) (rfind_char c s)"

section \<open>Integers: printing and parsing\<close>

definition digit_char :: "nat \<Rightarrow> char" where
  "digit_char d = ''0123456789ABCDEF'' ! d"

fun show_nat :: "nat \<Rightarrow> string" where
  "show_nat n = (if n < 10 then [digit_char n] else show_nat (n div 10) @ [digit_char (n mod 10)])"

declare show_nat.simps [simp del]

definition show_int :: "int \<Rightarrow> string" where
  "show_int i = (if i < 0 then CHR ''-'' # show_nat (nat (- i)) else show_nat (nat i))"

abbreviation show_word :: "'a::len word \<Rightarrow> string" where
  "show_word w \<equiv> show_nat (unat w)"

definition show_i32 :: "i32 \<Rightarrow> string" where
  "show_i32 w = show_int (sint w)"

text \<open>\<open>IntErrorKind\<close>, with the text its error prints.\<close>

datatype int_error_kind = EmptyInt | InvalidDigit | PosOverflow | NegOverflow

fun show_int_error :: "int_error_kind \<Rightarrow> string" where
  "show_int_error EmptyInt = ''cannot parse integer from empty string''"
| "show_int_error InvalidDigit = ''invalid digit found in string''"
| "show_int_error PosOverflow = ''number too large to fit in target type''"
| "show_int_error NegOverflow = ''number too small to fit in target type''"

text \<open>The digit loop of \<open>from_str_radix\<close> at a type with the range \<open>lo..hi\<close>.\<close>

fun digit_loop :: "int \<Rightarrow> int \<Rightarrow> nat \<Rightarrow> bool \<Rightarrow> int \<Rightarrow> string \<Rightarrow> int_error_kind + int" where
  "digit_loop lo hi radix pos acc [] = Ok acc"
| "digit_loop lo hi radix pos acc (c # cs) =
     (case to_digit radix c of
        None \<Rightarrow> Err InvalidDigit
      | Some d \<Rightarrow>
          (let mul = acc * int radix;
               new = (if pos then mul + int d else mul - int d);
               over = (if pos then PosOverflow else NegOverflow)
           in if mul < lo \<or> hi < mul \<or> new < lo \<or> hi < new then Err over
              else digit_loop lo hi radix pos new cs))"

definition from_str_radix :: "int \<Rightarrow> int \<Rightarrow> nat \<Rightarrow> string \<Rightarrow> int_error_kind + int" where
  "from_str_radix lo hi radix s =
     (case s of
        [] \<Rightarrow> Err EmptyInt
      | c # cs \<Rightarrow>
          if (c = CHR ''+'' \<or> c = CHR ''-'') \<and> cs = [] then Err InvalidDigit
          else if c = CHR ''+'' then digit_loop lo hi radix True 0 cs
          else if c = CHR ''-'' \<and> lo < 0 then digit_loop lo hi radix False 0 cs
          else digit_loop lo hi radix True 0 s)"

text \<open>\<open>str::parse\<close> at the integer types. Every caller but one drops the error.\<close>

definition parse_word :: "int \<Rightarrow> int \<Rightarrow> string \<Rightarrow> 'a::len word option" where
  "parse_word lo hi s =
     (case from_str_radix lo hi 10 s of Inl e \<Rightarrow> None | Inr n \<Rightarrow> Some (word_of_int n))"

abbreviation parse_u16 :: "string \<Rightarrow> u16 option" where
  "parse_u16 \<equiv> parse_word 0 65535"

abbreviation parse_u32 :: "string \<Rightarrow> u32 option" where
  "parse_u32 \<equiv> parse_word 0 4294967295"

abbreviation parse_i32 :: "string \<Rightarrow> i32 option" where
  "parse_i32 \<equiv> parse_word (- 2147483648) 2147483647"

section \<open>Debug printing\<close>

text \<open>The \<open>Debug\<close> form of a character between the given quotes (\<open>{c:?}\<close> and \<open>{s:?}\<close>).\<close>

fun show_hex_nat :: "nat \<Rightarrow> string" where
  "show_hex_nat n =
     (let d = (\<lambda>k. ''0123456789abcdef'' ! k)
      in if n < 16 then [d n] else show_hex_nat (n div 16) @ [d (n mod 16)])"

declare show_hex_nat.simps [simp del]

definition is_printable :: "char \<Rightarrow> bool" where
  "is_printable c \<longleftrightarrow> (32 \<le> code c \<and> code c < 127) \<or> (161 \<le> code c \<and> code c \<noteq> 173)"

definition debug_escape :: "char \<Rightarrow> char \<Rightarrow> string" where
  "debug_escape quote c =
     (if code c = 0 then [CHR 0x5C, CHR ''0'']
      else if code c = 9 then [CHR 0x5C, CHR ''t'']
      else if code c = 13 then [CHR 0x5C, CHR ''r'']
      else if code c = 10 then [CHR 0x5C, CHR ''n'']
      else if c = quote \<or> c = CHR 0x5C then [CHR 0x5C, c]
      else if is_printable c then [c]
      else [CHR 0x5C, CHR ''u'', CHR ''{''] @ show_hex_nat (code c) @ [CHR ''}''])"

definition debug_char :: "char \<Rightarrow> string" where
  "debug_char c = [CHR 0x27] @ debug_escape (CHR 0x27) c @ [CHR 0x27]"

definition debug_str :: "string \<Rightarrow> string" where
  "debug_str s = [CHR 0x22] @ concat (map (debug_escape (CHR 0x22)) s) @ [CHR 0x22]"

section \<open>Facts about digits and integers\<close>

lemma hex_digit_cases:
  fixes d :: nat
  assumes "d < 16"
  shows "d \<in> {0,1,2,3,4,5,6,7,8,9,10,11,12,13,14,15}"
  using assms by (auto simp: less_Suc_eq numeral_eq_Suc)

lemma code_digit_char: "d < 16 \<Longrightarrow> code (digit_char d) = (if d < 10 then 48 + d else 55 + d)"
  by (drule hex_digit_cases) (auto simp: digit_char_def)

lemma to_digit_digit_char: "d < 16 \<Longrightarrow> d < radix \<Longrightarrow> to_digit radix (digit_char d) = Some d"
  by (auto simp: to_digit_def code_digit_char is_ascii_digit_def)

lemma is_ascii_digit_digit_char: "d < 10 \<Longrightarrow> is_ascii_digit (digit_char d)"
  by (simp add: is_ascii_digit_def code_digit_char)

lemma is_ascii_hexdigit_digit_char: "d < 16 \<Longrightarrow> is_ascii_hexdigit (digit_char d)"
  by (auto simp: is_ascii_hexdigit_def is_ascii_digit_def code_digit_char)

lemma to_digit_10: "to_digit 10 c = (if is_ascii_digit c then Some (code c - 48) else None)"
  by (auto simp: to_digit_def is_ascii_digit_def Let_def)

lemma to_digit_16_iff: "(\<exists>d. to_digit 16 c = Some d) \<longleftrightarrow> is_ascii_hexdigit c"
  by (auto simp: to_digit_def is_ascii_hexdigit_def is_ascii_digit_def Let_def)

lemma to_digit_less: "to_digit radix c = Some d \<Longrightarrow> d < radix"
  by (auto simp: to_digit_def Let_def split: option.splits if_splits)

lemma set_show_nat: "c \<in> set (show_nat n) \<Longrightarrow> is_ascii_digit c"
proof (induction n rule: show_nat.induct)
  case (1 n)
  then show ?case
    by (auto simp: show_nat.simps [of n] is_ascii_digit_digit_char split: if_splits)
qed

lemma show_nat_nonempty [simp]: "show_nat n \<noteq> []"
  by (subst show_nat.simps) simp

lemma notin_show_nat: "\<not> is_ascii_digit c \<Longrightarrow> c \<notin> set (show_nat n)"
  using set_show_nat by blast

text \<open>The value of a digit string, most significant digit first.\<close>

definition digits_value :: "nat \<Rightarrow> nat \<Rightarrow> string \<Rightarrow> nat" where
  "digits_value radix acc s = foldl (\<lambda>a c. a * radix + the (to_digit radix c)) acc s"

lemma digits_value_append:
  "digits_value radix acc (s @ t) = digits_value radix (digits_value radix acc s) t"
  by (simp add: digits_value_def)

lemma digits_value_ge: "0 < radix \<Longrightarrow> acc \<le> digits_value radix acc s"
proof (induction s arbitrary: acc)
  case Nil
  then show ?case by (simp add: digits_value_def)
next
  case (Cons c s)
  let ?a = "acc * radix + the (to_digit radix c)"
  from Cons have "?a \<le> digits_value radix ?a s" by blast
  moreover from Cons.prems have "acc \<le> ?a" by (simp add: trans_le_add1)
  ultimately show ?case by (simp add: digits_value_def)
qed

lemma digits_value_show_nat [simp]: "digits_value 10 0 (show_nat n) = n"
proof (induction n rule: show_nat.induct)
  case (1 n)
  show ?case
  proof (cases "n < 10")
    case True
    then show ?thesis
      by (simp add: show_nat.simps [of n] digits_value_def to_digit_digit_char)
  next
    case False
    with 1 have "digits_value 10 0 (show_nat (n div 10)) = n div 10" by simp
    with False show ?thesis
      by (simp add: show_nat.simps [of n] digits_value_append)
         (simp add: digits_value_def to_digit_digit_char)
  qed
qed

text \<open>The digit loop on valid digits: the value, when it fits.\<close>

lemma digit_loop_pos:
  assumes "\<forall>c\<in>set s. to_digit radix c \<noteq> None" and "lo \<le> 0" and "0 < radix"
    and "int (digits_value radix acc s) \<le> hi"
  shows "digit_loop lo hi radix True (int acc) s = Ok (int (digits_value radix acc s))"
  using assms
proof (induction s arbitrary: acc)
  case Nil
  then show ?case by (simp add: digits_value_def)
next
  case (Cons c s)
  then obtain d where d: "to_digit radix c = Some d" by auto
  let ?a = "acc * radix + d"
  have val: "digits_value radix acc (c # s) = digits_value radix ?a s"
    by (simp add: digits_value_def d)
  have "?a \<le> digits_value radix ?a s" using Cons.prems by (simp add: digits_value_ge)
  with Cons.prems val have le: "int ?a \<le> hi" by linarith
  have "\<not> int acc * int radix < lo" and "\<not> int acc * int radix + int d < lo"
    using Cons.prems(2) by (smt (verit) of_nat_0_le_iff of_nat_mult)+
  with le d have "digit_loop lo hi radix True (int acc) (c # s) = digit_loop lo hi radix True (int ?a) s"
    by (simp add: Let_def)
  also have "\<dots> = Ok (int (digits_value radix ?a s))"
    using Cons.prems val by (intro Cons.IH) auto
  finally show ?case by (simp add: val)
qed

lemma digit_loop_neg:
  assumes "\<forall>c\<in>set s. to_digit radix c \<noteq> None" and "0 \<le> hi" and "0 < radix"
    and "lo \<le> - int (digits_value radix acc s)"
  shows "digit_loop lo hi radix False (- int acc) s = Ok (- int (digits_value radix acc s))"
  using assms
proof (induction s arbitrary: acc)
  case Nil
  then show ?case by (simp add: digits_value_def)
next
  case (Cons c s)
  then obtain d where d: "to_digit radix c = Some d" by auto
  let ?a = "acc * radix + d"
  have val: "digits_value radix acc (c # s) = digits_value radix ?a s"
    by (simp add: digits_value_def d)
  have "?a \<le> digits_value radix ?a s" using Cons.prems by (simp add: digits_value_ge)
  with Cons.prems val have le: "lo \<le> - int ?a" by linarith
  have "\<not> hi < - int acc * int radix" and "\<not> hi < - int acc * int radix - int d"
    using Cons.prems(2) by (smt (verit) of_nat_0_le_iff of_nat_mult mult_minus_left)+
  with le d have "digit_loop lo hi radix False (- int acc) (c # s) = digit_loop lo hi radix False (- int ?a) s"
    by (simp add: Let_def)
  also have "\<dots> = Ok (- int (digits_value radix ?a s))"
    using Cons.prems val by (intro Cons.IH) auto
  finally show ?case by (simp add: val)
qed

lemma show_nat_Cons: obtains c cs where "show_nat n = c # cs" "is_ascii_digit c"
  by (metis list.exhaust list.set_intros(1) set_show_nat show_nat_nonempty)

lemma show_nat_valid: "\<forall>c\<in>set (show_nat n). to_digit 10 c \<noteq> None"
  using set_show_nat by (auto simp: to_digit_10)

lemma from_str_radix_show_nat:
  assumes "lo \<le> 0" and "int n \<le> hi"
  shows "from_str_radix lo hi 10 (show_nat n) = Ok (int n)"
proof -
  obtain c cs where s: "show_nat n = c # cs" and c: "is_ascii_digit c" by (rule show_nat_Cons)
  then have "c \<noteq> CHR ''+''" "c \<noteq> CHR ''-''" by (auto simp: is_ascii_digit_def)
  then have "from_str_radix lo hi 10 (show_nat n) = digit_loop lo hi 10 True (int 0) (show_nat n)"
    by (simp add: from_str_radix_def s)
  also have "\<dots> = Ok (int n)"
    using assms digit_loop_pos [of "show_nat n" 10 lo 0 hi] by (simp add: show_nat_valid)
  finally show ?thesis .
qed

lemma from_str_radix_show_int:
  assumes "lo < 0" and "0 \<le> hi" and "lo \<le> i" and "i \<le> hi"
  shows "from_str_radix lo hi 10 (show_int i) = Ok i"
proof (cases "i < 0")
  case True
  have "from_str_radix lo hi 10 (show_int i) = digit_loop lo hi 10 False (- int 0) (show_nat (nat (- i)))"
    using True assms by (simp add: from_str_radix_def show_int_def)
  also have "\<dots> = Ok i"
    using True assms digit_loop_neg [of "show_nat (nat (- i))" 10 hi lo 0] by (simp add: show_nat_valid)
  finally show ?thesis .
next
  case False
  with assms show ?thesis by (simp add: show_int_def from_str_radix_show_nat)
qed

lemma parse_u16_show [simp]: "parse_u16 (show_word p) = Some p"
proof -
  have "int (unat p) \<le> 65535" using unat_u16_less [of p] by linarith
  then show ?thesis using from_str_radix_show_nat [of 0 "unat p" 65535] by (simp add: parse_word_def)
qed

lemma parse_u32_show [simp]: "parse_u32 (show_word p) = Some p"
proof -
  have "int (unat p) \<le> 4294967295" using unat_u32_less [of p] by linarith
  then show ?thesis using from_str_radix_show_nat [of 0 "unat p" 4294967295] by (simp add: parse_word_def)
qed

lemma parse_i32_show [simp]: "parse_i32 (show_i32 p) = Some p"
  using sint_ge [of p] sint_lt [of p] by (simp add: parse_word_def show_i32_def from_str_radix_show_int)

lemma show_nat_inject [simp]: "show_nat m = show_nat n \<longleftrightarrow> m = n"
  by (metis digits_value_show_nat)

lemma show_i32_inject [simp]: "show_i32 p = show_i32 q \<longleftrightarrow> p = q"
  by (metis option.inject parse_i32_show)

text \<open>A string that parses holds nothing but digits and a sign.\<close>

definition int_char :: "char \<Rightarrow> bool" where
  "int_char c \<longleftrightarrow> is_ascii_digit c \<or> c = CHR ''+'' \<or> c = CHR ''-''"

lemma digit_loop_chars: "digit_loop lo hi 10 pos acc s = Ok i \<Longrightarrow> c \<in> set s \<Longrightarrow> is_ascii_digit c"
  by (induction s arbitrary: acc)
     (auto simp: to_digit_10 Let_def split: if_splits)

lemma parse_word_chars: "parse_word lo hi s = Some w \<Longrightarrow> c \<in> set s \<Longrightarrow> int_char c"
  unfolding parse_word_def from_str_radix_def int_char_def
  by (auto split: list.splits if_splits sum.splits simp del: digit_loop.simps dest: digit_loop_chars)

lemma parse_word_None: "c \<in> set s \<Longrightarrow> \<not> int_char c \<Longrightarrow> parse_word lo hi s = None"
  by (meson not_None_eq parse_word_chars)

lemma parse_word_Nil [simp]: "parse_word lo hi [] = None"
  by (simp add: parse_word_def from_str_radix_def)

lemma int_char_show_nat: "c \<in> set (show_nat n) \<Longrightarrow> int_char c"
  by (simp add: int_char_def set_show_nat)

lemma int_char_show_i32: "c \<in> set (show_i32 p) \<Longrightarrow> int_char c"
  by (auto simp: int_char_def show_i32_def show_int_def set_show_nat split: if_splits)

lemma show_i32_nonempty [simp]: "show_i32 p \<noteq> []"
  by (simp add: show_i32_def show_int_def)

section \<open>Facts about splitting and trimming\<close>

lemma strip_prefix_Some_iff [text_simps]: "strip_prefix p s = Some r \<longleftrightarrow> s = p @ r"
  by (induction p s rule: strip_prefix.induct) auto

lemma strip_prefix_append [simp]: "strip_prefix p (p @ r) = Some r"
  by (simp add: strip_prefix_Some_iff)

lemma starts_with_iff [text_simps]: "starts_with p s \<longleftrightarrow> (\<exists>r. s = p @ r)"
  by (auto simp: starts_with_def strip_prefix_Some_iff)

lemma find_char_None_iff [simp]: "find_char c s = None \<longleftrightarrow> c \<notin> set s"
  by (induction s) auto

lemma rfind_char_None_iff [simp]: "rfind_char c s = None \<longleftrightarrow> c \<notin> set s"
  by (induction s) (auto split: option.splits)

lemma find_char_append: "c \<notin> set a \<Longrightarrow> find_char c (a @ c # b) = Some (length a)"
  by (induction a) auto

lemma rfind_char_append: "c \<notin> set b \<Longrightarrow> rfind_char c (a @ c # b) = Some (length a)"
  by (induction a) (auto simp: rfind_char_None_iff [THEN iffD2])

lemma find_char_SomeD:
  "find_char c s = Some i \<Longrightarrow> s = take i s @ c # drop (Suc i) s \<and> c \<notin> set (take i s)"
  by (induction s arbitrary: i) (auto split: if_splits)

lemma rfind_char_SomeD:
  "rfind_char c s = Some i \<Longrightarrow> s = take i s @ c # drop (Suc i) s \<and> c \<notin> set (drop (Suc i) s)"
  by (induction s arbitrary: i) (auto split: if_splits option.splits)

lemma split_once_Some_iff [text_simps]:
  "split_once c s = Some (a, b) \<longleftrightarrow> s = a @ c # b \<and> c \<notin> set a"
  by (auto simp: split_once_def find_char_append dest: find_char_SomeD)

lemma rsplit_once_Some_iff [text_simps]:
  "rsplit_once c s = Some (a, b) \<longleftrightarrow> s = a @ c # b \<and> c \<notin> set b"
  by (auto simp: rsplit_once_def rfind_char_append dest: rfind_char_SomeD)

lemma split_once_None_iff [simp]: "split_once c s = None \<longleftrightarrow> c \<notin> set s"
  by (simp add: split_once_def)

lemma rsplit_once_None_iff [simp]: "rsplit_once c s = None \<longleftrightarrow> c \<notin> set s"
  by (simp add: rsplit_once_def)

lemma split_on_nonempty [simp]: "split_on sep s \<noteq> []"
  by (induction s) (auto split: list.splits)

lemma split_on_no_sep: "(\<forall>c\<in>set w. \<not> sep c) \<Longrightarrow> split_on sep w = [w]"
  by (induction w) auto

lemma split_on_append_sep:
  "\<forall>c\<in>set w. \<not> sep c \<Longrightarrow> sep c \<Longrightarrow> split_on sep (w @ c # s) = w # split_on sep s"
  by (induction w) auto

lemma split_on_pieces: "w \<in> set (split_on sep s) \<Longrightarrow> c \<in> set w \<Longrightarrow> c \<in> set s \<and> \<not> sep c"
  by (induction s arbitrary: w) (fastforce split: if_splits list.splits)+

lemma concat_split_on: "concat (split_on sep s) = filter (\<lambda>c. \<not> sep c) s"
  by (induction s) (auto split: list.splits)

text \<open>The non-empty pieces: the tokens of a line.\<close>

definition pieces :: "(char \<Rightarrow> bool) \<Rightarrow> string \<Rightarrow> string list" where
  "pieces sep s = filter (\<lambda>w. w \<noteq> []) (split_on sep s)"

lemma pieces_Nil [simp]: "pieces sep [] = []"
  by (simp add: pieces_def)

lemma pieces_sep [simp]: "sep c \<Longrightarrow> pieces sep (c # s) = pieces sep s"
  by (simp add: pieces_def)

lemma pieces_word: "\<forall>c\<in>set w. \<not> sep c \<Longrightarrow> w \<noteq> [] \<Longrightarrow> pieces sep w = [w]"
  by (simp add: pieces_def split_on_no_sep)

lemma pieces_append_sep:
  "\<forall>c\<in>set w. \<not> sep c \<Longrightarrow> w \<noteq> [] \<Longrightarrow> sep c \<Longrightarrow> pieces sep (w @ c # s) = w # pieces sep s"
  by (simp add: pieces_def split_on_append_sep)

lemma pieces_eq_Nil_iff: "pieces sep s = [] \<longleftrightarrow> (\<forall>c\<in>set s. sep c)"
proof -
  have "pieces sep s = [] \<longleftrightarrow> concat (split_on sep s) = []"
    by (simp add: pieces_def filter_empty_conv)
  then show ?thesis by (simp add: concat_split_on filter_empty_conv)
qed

lemma pieces_no_sep: "w \<in> set (pieces sep s) \<Longrightarrow> w \<noteq> [] \<and> (\<forall>c\<in>set w. \<not> sep c)"
  using split_on_pieces by (fastforce simp: pieces_def)

lemma concat_pieces: "concat (pieces sep s) = filter (\<lambda>c. \<not> sep c) s"
proof -
  have "concat (filter (\<lambda>w. w \<noteq> []) ws) = concat ws" for ws :: "string list"
    by (induction ws) auto
  then show ?thesis by (simp add: pieces_def concat_split_on)
qed

text \<open>Joining words with a separator.\<close>

fun join_with :: "char \<Rightarrow> string list \<Rightarrow> string" where
  "join_with c [] = []"
| "join_with c [w] = w"
| "join_with c (w # v # ws) = w @ c # join_with c (v # ws)"

lemma pieces_join_with:
  "sep c \<Longrightarrow> \<forall>w\<in>set ws. w \<noteq> [] \<and> (\<forall>x\<in>set w. \<not> sep x) \<Longrightarrow> pieces sep (join_with c ws) = ws"
  by (induction c ws rule: join_with.induct) (auto simp: pieces_word pieces_append_sep)

lemma trim_eq_Nil_iff [simp]: "trim s = [] \<longleftrightarrow> (\<forall>c\<in>set s. is_whitespace c)"
  unfolding trim_def by (auto simp: dropWhile_eq_Nil_conv dest: set_dropWhileD)
    (metis dropWhile_eq_Nil_conv dropWhile_append3 set_dropWhileD takeWhile_dropWhile_id
      set_takeWhileD Un_iff set_append)

lemma trim_hd_last:
  "s \<noteq> [] \<Longrightarrow> \<not> is_whitespace (hd s) \<Longrightarrow> \<not> is_whitespace (last s) \<Longrightarrow> trim s = s"
  by (simp add: trim_def dropWhile_eq_self_iff [THEN iffD2] hd_rev)

lemma join_with_nonempty: "ws \<noteq> [] \<Longrightarrow> \<forall>w\<in>set ws. w \<noteq> [] \<Longrightarrow>
  join_with c ws \<noteq> [] \<and> hd (join_with c ws) = hd (hd ws) \<and> last (join_with c ws) = last (last ws)"
  by (induction c ws rule: join_with.induct) auto

lemma trim_join_with:
  assumes "ws \<noteq> []" and "\<forall>w\<in>set ws. w \<noteq> [] \<and> (\<forall>x\<in>set w. \<not> is_whitespace x)"
  shows "trim (join_with c ws) = join_with c ws"
proof -
  have "hd ws \<in> set ws" "last ws \<in> set ws" using assms(1) by auto
  then have "\<not> is_whitespace (hd (hd ws))" "\<not> is_whitespace (last (last ws))"
    using assms(2) by auto
  then show ?thesis using join_with_nonempty [of ws c] assms by (intro trim_hd_last) auto
qed

text \<open>Trimming removes whitespace only at the two ends.\<close>

lemma trim_decomp:
  "\<exists>l r. s = l @ trim s @ r \<and> (\<forall>c\<in>set l. is_whitespace c) \<and> (\<forall>c\<in>set r. is_whitespace c)"
proof (intro exI conjI)
  let ?l = "takeWhile is_whitespace s" and ?m = "dropWhile is_whitespace s"
  let ?r = "rev (takeWhile is_whitespace (rev ?m))"
  have "?m = rev (dropWhile is_whitespace (rev ?m)) @ ?r"
    by (metis rev_append rev_rev_ident takeWhile_dropWhile_id)
  then show "s = ?l @ trim s @ ?r"
    by (metis takeWhile_dropWhile_id trim_def)
qed (auto dest: set_takeWhileD)

end
