(* ===== verification/Conn_Id.thy ===== *)
theory Conn_Id
  imports Rust_Text
begin

text \<open>
  Connection identifiers (\<open>domain/id.rs\<close>): the \<open>ConnectionId\<close> enum, its \<open>Display\<close>
  text, its equality, and \<open>is_server\<close>.

  A \<open>PathBuf\<close> is modelled by its text. Two paths of Rust are equal when their components
  are, so \<open>/tmp//a\<close> and \<open>/tmp/./a/\<close> equal \<open>/tmp/a\<close> although they print differently.
  \<open>path_key\<close> computes the components, and \<open>same_id\<close> is the derived \<open>==\<close> of
  \<open>ConnectionId\<close>.
\<close>

section \<open>Paths\<close>

type_synonym path = string

type_synonym path_components = "bool \<times> string list" \<comment> \<open>rooted?, the components\<close>

definition path_key :: "path \<Rightarrow> path_components" where
  "path_key s =
     (let segs = split_on (\<lambda>c. c = CHR ''/'') s;
          rooted = starts_with ''/'' s;
          names = filter (\<lambda>w. w \<noteq> [] \<and> w \<noteq> ''.'') segs
      in (rooted, if \<not> rooted \<and> hd segs = ''.'' then ''.'' # names else names))"

section \<open>ConnectionId\<close>

datatype 'p conn_id =
    TcpServer u16                        \<comment> \<open>port\<close>
  | IpcServer 'p                         \<comment> \<open>path\<close>
  | TcpClient u16                        \<comment> \<open>local_port\<close>
  | IpcClient u32                        \<comment> \<open>seq\<close>
  | AcceptedTcp u16 u16 "u32 option"     \<comment> \<open>parent_port, remote_port, disambig\<close>
  | AcceptedIpc 'p i32 "u32 option"      \<comment> \<open>parent_path, pid, disambig\<close>

type_synonym connection_id = "path conn_id"

text \<open>The identifier up to \<open>==\<close>: what a \<open>HashMap\<close> keyed by identifiers tells apart.\<close>

type_synonym conn_key = "path_components conn_id"

definition key :: "connection_id \<Rightarrow> conn_key" where
  "key i = map_conn_id path_key i"

definition same_id :: "connection_id \<Rightarrow> connection_id \<Rightarrow> bool" where
  "same_id i j \<longleftrightarrow> key i = key j"

fun is_server :: "'p conn_id \<Rightarrow> bool" where
  "is_server (TcpServer p) = True"
| "is_server (IpcServer p) = True"
| "is_server _ = False"

fun show_disambig :: "u32 option \<Rightarrow> string" where
  "show_disambig (Some n) = ''#'' @ show_word n"
| "show_disambig None = ''''"

fun show_id :: "connection_id \<Rightarrow> string" where
  "show_id (TcpServer p) = show_word p"
| "show_id (IpcServer p) = p"
| "show_id (TcpClient p) = show_word p"
| "show_id (IpcClient n) = ''ipc:'' @ show_word n"
| "show_id (AcceptedTcp p r d) = show_word p @ ''.'' @ show_word r @ show_disambig d"
| "show_id (AcceptedIpc p q d) = p @ ''.'' @ show_i32 q @ show_disambig d"

section \<open>Facts\<close>

lemma same_id_refl [simp]: "same_id i i"
  by (simp add: same_id_def)

lemma same_id_sym: "same_id i j \<Longrightarrow> same_id j i"
  by (simp add: same_id_def)

lemma same_id_trans: "same_id i j \<Longrightarrow> same_id j k \<Longrightarrow> same_id i k"
  by (simp add: same_id_def)

lemma key_simps [simp]:
  "key (TcpServer p) = TcpServer p"
  "key (IpcServer q) = IpcServer (path_key q)"
  "key (TcpClient p) = TcpClient p"
  "key (IpcClient n) = IpcClient n"
  "key (AcceptedTcp p r d) = AcceptedTcp p r d"
  "key (AcceptedIpc q n' d) = AcceptedIpc (path_key q) n' d"
  by (simp_all add: key_def)

lemma is_server_key [simp]: "is_server (key i) = is_server i"
  by (cases i) simp_all

lemma same_id_is_server: "same_id i j \<Longrightarrow> is_server i = is_server j"
  unfolding same_id_def by (metis is_server_key)

lemma same_id_path_free:
  "same_id i (TcpServer p) \<longleftrightarrow> i = TcpServer p"
  "same_id i (TcpClient p) \<longleftrightarrow> i = TcpClient p"
  "same_id i (IpcClient n) \<longleftrightarrow> i = IpcClient n"
  "same_id i (AcceptedTcp p r d) \<longleftrightarrow> i = AcceptedTcp p r d"
  by (cases i; auto simp: same_id_def)+

lemma same_id_path_free':
  "same_id (TcpServer p) i \<longleftrightarrow> i = TcpServer p"
  "same_id (TcpClient p) i \<longleftrightarrow> i = TcpClient p"
  "same_id (IpcClient n) i \<longleftrightarrow> i = IpcClient n"
  "same_id (AcceptedTcp p r d) i \<longleftrightarrow> i = AcceptedTcp p r d"
  using same_id_path_free same_id_sym by blast+

text \<open>The text of an identifier is unique among the identifiers of one TCP kind.\<close>

lemma show_disambig_inject [simp]: "show_disambig d = show_disambig e \<longleftrightarrow> d = e"
  by (cases d; cases e) auto

lemma digits_append_inject:
  assumes "show_nat m @ c # s = show_nat n @ d # t" and "\<not> is_ascii_digit c" and "\<not> is_ascii_digit d"
  shows "m = n \<and> c = d \<and> s = t"
proof -
  have "takeWhile is_ascii_digit (show_nat k @ x # u) = show_nat k" if "\<not> is_ascii_digit x" for k x u
    using that set_show_nat by (simp add: takeWhile_append)
  then have "show_nat m = show_nat n" using assms by metis
  with assms(1) show ?thesis by simp
qed

lemma dot_hash_not_digit [simp]:
  "\<not> is_ascii_digit (CHR ''.'')" "\<not> is_ascii_digit (CHR ''#'')" "\<not> is_ascii_digit (CHR '':'')"
  "\<not> is_ascii_digit (CHR ''/'')" "\<not> is_ascii_digit (CHR ''i'')"
  by (simp_all add: is_ascii_digit_def)

lemma show_nat_disambig_inject:
  "show_nat m @ show_disambig d = show_nat n @ show_disambig e \<longleftrightarrow> m = n \<and> d = e"
proof (cases d)
  case d: None
  show ?thesis
  proof (cases e)
    case None
    with d show ?thesis by simp
  next
    case (Some y)
    have "CHR ''#'' \<notin> set (show_nat m)" by (simp add: notin_show_nat)
    then have "show_nat m \<noteq> show_nat n @ CHR ''#'' # show_word y" by (metis in_set_conv_decomp)
    with d Some show ?thesis by simp
  qed
next
  case d: (Some x)
  show ?thesis
  proof (cases e)
    case None
    have "CHR ''#'' \<notin> set (show_nat n)" by (simp add: notin_show_nat)
    then have "show_nat m @ CHR ''#'' # show_word x \<noteq> show_nat n" by (metis in_set_conv_decomp)
    with d None show ?thesis by simp
  next
    case (Some y)
    with d show ?thesis
      using digits_append_inject [of m "CHR ''#''" "show_word x" n "CHR ''#''" "show_word y"] by auto
  qed
qed

lemma show_accepted_tcp_inject [simp]:
  "show_id (AcceptedTcp p r d) = show_id (AcceptedTcp p' r' d') \<longleftrightarrow> p = p' \<and> r = r' \<and> d = d'"
proof
  assume "show_id (AcceptedTcp p r d) = show_id (AcceptedTcp p' r' d')"
  then have "unat p = unat p' \<and> show_word r @ show_disambig d = show_word r' @ show_disambig d'"
    using digits_append_inject [of "unat p" "CHR ''.''" _ "unat p'" "CHR ''.''"] by simp
  then show "p = p' \<and> r = r' \<and> d = d'" by (simp add: show_nat_disambig_inject)
qed simp

lemma show_disambig_chars: "c \<in> set (show_disambig d) \<Longrightarrow> is_ascii_digit c \<or> c = CHR ''#''"
  by (cases d) (auto simp: set_show_nat)

end
