(* ===== verification/Domain_Error.thy ===== *)
theory Domain_Error
  imports Rust_Text
begin

text \<open>
  The typed errors of the three layers and the text each prints: \<open>DomainError\<close>
  (\<open>domain/error.rs\<close>), \<open>InfraError\<close> with its conversion (\<open>infra/error.rs\<close>), and
  \<open>ReplError\<close> (\<open>repl/error.rs\<close>). The \<open>to_string\<close> functions are the \<open>Display\<close>
  implementations that \<open>thiserror\<close> derives from the \<open>#[error(...)]\<close> attributes.
\<close>

section \<open>DomainError\<close>

datatype domain_error =
    UnknownId string
  | IdAlreadyInUse string
  | LabelAlreadyInUse string
  | InvalidHex string
  | ServerHasNoChildren string
  | EmptyPayload
  | Io string
  | Logic string

fun show_domain_error :: "domain_error \<Rightarrow> string" where
  "show_domain_error (UnknownId s) = ''unknown id: '' @ s"
| "show_domain_error (IdAlreadyInUse s) = ''id already in use: '' @ s"
| "show_domain_error (LabelAlreadyInUse s) = ''label already in use: '' @ s"
| "show_domain_error (InvalidHex s) = ''invalid hex payload: '' @ s"
| "show_domain_error (ServerHasNoChildren s) =
     ''server '' @ s @ '' has no active accepted connections''"
| "show_domain_error EmptyPayload = ''empty payload''"
| "show_domain_error (Io s) = ''io error: '' @ s"
| "show_domain_error (Logic s) = ''logic error: '' @ s"

section \<open>InfraError\<close>

text \<open>\<open>std::io::Error\<close> is known by its kind, as far as the code asks, and its text.\<close>

datatype io_error_kind = AddrInUse | OtherKind

record io_error =
  ioe_kind :: io_error_kind
  ioe_text :: string

datatype infra_error =
    InfraIo io_error
  | AddressInUse string
  | PeerCred string
  | InvalidEndpoint string

fun show_infra_error :: "infra_error \<Rightarrow> string" where
  "show_infra_error (InfraIo e) = ''io error: '' @ ioe_text e"
| "show_infra_error (AddressInUse s) = ''address already in use: '' @ s"
| "show_infra_error (PeerCred s) = ''peercred failed: '' @ s"
| "show_infra_error (InvalidEndpoint s) = ''invalid endpoint: '' @ s"

text \<open>\<open>From<InfraError> for DomainError\<close>.\<close>

fun domain_of_infra :: "infra_error \<Rightarrow> domain_error" where
  "domain_of_infra (AddressInUse s) = IdAlreadyInUse s"
| "domain_of_infra e = Io (show_infra_error e)"

section \<open>ReplError\<close>

datatype repl_error =
    Parse string
  | Domain domain_error
  | ReplIo io_error

fun show_repl_error :: "repl_error \<Rightarrow> string" where
  "show_repl_error (Parse s) = ''parse error: '' @ s"
| "show_repl_error (Domain e) = ''domain error: '' @ show_domain_error e"
| "show_repl_error (ReplIo e) = ''io error: '' @ ioe_text e"

end
