(* ===== verification/Messages.thy ===== *)
theory Messages
  imports Conn_Id Domain_Error
begin

text \<open>
  The data that the tasks of wiredock exchange: peers, network events, display lines,
  command outcomes and the merged input of the registry task (\<open>domain/event.rs\<close>), user
  commands (\<open>domain/command.rs\<close>), endpoints (\<open>domain/endpoint.rs\<close>), the state of one
  connection (\<open>domain/state.rs\<close>), and what an accept loop yields
  (\<open>domain/transport.rs\<close>).

  A stream is \<open>BoxedStream\<close> of \<open>domain/io.rs\<close>, a trait object over tokio's
  \<open>AsyncRead\<close> and \<open>AsyncWrite\<close>: the type parameter \<open>'s\<close> of the model.
\<close>

section \<open>Peers\<close>

datatype peer_info = TcpSocket string | IpcPid i32 | IpcRemotePath path

fun render_peer :: "peer_info \<Rightarrow> string" where
  "render_peer (TcpSocket addr) = addr"
| "render_peer (IpcPid pid) = ''pid='' @ show_i32 pid"
| "render_peer (IpcRemotePath p) = p"

section \<open>Events and outcomes\<close>

datatype net_event =
    Received connection_id "u8 list"
  | EvClosed connection_id
  | EvError connection_id string
  | Renamed connection_id connection_id \<comment> \<open>new_id, old_id\<close>

record command_outcome =
  success :: bool
  message :: string

definition outcome_ok :: "string \<Rightarrow> command_outcome" where
  "outcome_ok msg = \<lparr>success = True, message = msg\<rparr>"

definition outcome_err :: "string \<Rightarrow> command_outcome" where
  "outcome_err msg = \<lparr>success = False, message = msg\<rparr>"

section \<open>Commands and endpoints\<close>

datatype command =
    OpenTcpServer u16
  | OpenIpcServer path
  | OpenTcpClient u16 string u16
  | OpenIpcClient path
  | Close string
  | Send string "u8 list"
  | Label string string
  | Status

datatype endpoint = TcpEndpoint u16 string u16 | IpcEndpoint path

datatype server_endpoint = TcpServerEndpoint u16 | IpcServerEndpoint path

section \<open>Connection state\<close>

datatype connection_status = Connected | Closing | Closed

record connection_state =
  cs_id :: connection_id
  cs_status :: connection_status
  cs_label :: "string option"
  cs_peer_info :: "peer_info option"

definition new_connected :: "connection_id \<Rightarrow> peer_info option \<Rightarrow> connection_state" where
  "new_connected i p = \<lparr>cs_id = i, cs_status = Connected, cs_label = None, cs_peer_info = p\<rparr>"

definition on_closed :: "connection_state \<Rightarrow> connection_state" where
  "on_closed st = st\<lparr>cs_status := Closed\<rparr>"

section \<open>Inputs of the registry task\<close>

record 's accepted_stream =
  as_stream :: 's
  as_peer_info :: peer_info

text \<open>
  The \<open>reply\<close> channel of a command is modelled by what the registry can observe of it:
  whether the receiver is still there when the outcome is sent.
\<close>

datatype 's registry_input =
    Command command bool
  | Event net_event
  | Accepted connection_id connection_id peer_info 's \<comment> \<open>parent, child, peer_info, stream\<close>
  | Shutdown

end
