(* ===== verification/Hex.thy ===== *)
theory Hex
  imports Domain_Error
begin

text \<open>
  The hexadecimal payload parser and formatter (\<open>domain/hex.rs\<close>): the two loops of
  \<open>parse_hex_tokens\<close> as the code runs them, the formatter, a reference decoder on pairs
  of digits, and the lemmas that relate the three.
\<close>

section \<open>parse_hex_tokens\<close>

text \<open>
  The first loop: every character of every token is checked and pushed onto \<open>joined\<close>.
\<close>

fun join_chars :: "string \<Rightarrow> string \<Rightarrow> domain_error + string" where
  "join_chars joined [] = Ok joined"
| "join_chars joined (c # cs) =
     (if \<not> is_ascii_hexdigit c
      then Err (InvalidHex (''non-hex character: '' @ debug_char c))
      else join_chars (joined @ [c]) cs)"

fun join_tokens :: "string \<Rightarrow> string list \<Rightarrow> domain_error + string" where
  "join_tokens joined [] = Ok joined"
| "join_tokens joined (t # ts) =
     and_then (join_chars joined t) (\<lambda>joined'. join_tokens joined' ts)"

text \<open>
  One pair: \<open>str::from_utf8\<close> of two bytes that are ASCII, then \<open>u8::from_str_radix\<close>.
\<close>

definition parse_pair :: "string \<Rightarrow> domain_error + u8" where
  "parse_pair pair =
     (if \<exists>c\<in>set pair. 128 \<le> code c then Err (InvalidHex ''non-ascii hex pair'')
      else (case from_str_radix 0 255 16 pair of
              Inl e \<Rightarrow> Err (InvalidHex (''parse pair '' @ debug_str pair @ '': '' @ show_int_error e))
            | Inr n \<Rightarrow> Ok (word_of_int n)))"

text \<open>
  The second loop, over the byte index \<open>i\<close>. The slice \<open>bytes[i..i + 2]\<close> stays in range
  because the caller has checked that the length is even.
\<close>

function pair_loop :: "string \<Rightarrow> nat \<Rightarrow> u8 list \<Rightarrow> domain_error + u8 list" where
  "pair_loop bytes i out =
     (if i < length bytes
      then (case parse_pair (take 2 (drop i bytes)) of
              Inl e \<Rightarrow> Err e
            | Inr byte \<Rightarrow> pair_loop bytes (i + 2) (out @ [byte]))
      else Ok out)"
  by pat_completeness auto
termination
  by (relation "measure (\<lambda>(bytes, i, out). length bytes - i)") auto

declare pair_loop.simps [simp del]

definition parse_hex_tokens :: "string list \<Rightarrow> domain_error + u8 list" where
  "parse_hex_tokens tokens =
     (if tokens = [] then Err EmptyPayload
      else and_then (join_tokens [] tokens) (\<lambda>joined.
        if joined = [] then Err EmptyPayload
        else if length joined mod 2 \<noteq> 0 then Err (InvalidHex ''odd number of hex digits'')
        else pair_loop joined 0 []))"

section \<open>format_hex_spaced\<close>

text \<open>\<open>{b:02X}\<close>.\<close>

definition fmt_02X :: "u8 \<Rightarrow> string" where
  "fmt_02X b = [digit_char (unat b div 16), digit_char (unat b mod 16)]"

fun format_hex_from :: "nat \<Rightarrow> string \<Rightarrow> u8 list \<Rightarrow> string" where
  "format_hex_from i s [] = s"
| "format_hex_from i s (b # bs) =
     format_hex_from (Suc i) ((if 0 < i then s @ '' '' else s) @ fmt_02X b) bs"

definition format_hex_spaced :: "u8 list \<Rightarrow> string" where
  "format_hex_spaced bytes = format_hex_from 0 [] bytes"

section \<open>The reference decoder\<close>

text \<open>Two digits make a byte, the high one first.\<close>

definition hex_value :: "char \<Rightarrow> nat" where
  "hex_value c = the (to_digit 16 c)"

fun decode_pairs :: "string \<Rightarrow> u8 list" where
  "decode_pairs (a # b # cs) = word_of_nat (hex_value a * 16 + hex_value b) # decode_pairs cs"
| "decode_pairs _ = []"

lemma length_decode_pairs: "length (decode_pairs s) = length s div 2"
  by (induction s rule: decode_pairs.induct) auto

lemma join_chars_Ok_iff:
  "join_chars j s = Ok r \<longleftrightarrow> (\<forall>c\<in>set s. is_ascii_hexdigit c) \<and> r = j @ s"
  by (induction s arbitrary: j) auto

lemma join_tokens_Ok_iff:
  "join_tokens j ts = Ok r \<longleftrightarrow> (\<forall>c\<in>set (concat ts). is_ascii_hexdigit c) \<and> r = j @ concat ts"
  by (induction ts arbitrary: j) (auto simp: and_then_Ok_iff join_chars_Ok_iff)

text \<open>The first character that is no digit decides the error.\<close>

definition bad_char :: "string \<Rightarrow> domain_error" where
  "bad_char s = InvalidHex (''non-hex character: '' @
     debug_char (hd (dropWhile is_ascii_hexdigit s)))"

lemma join_chars_Err:
  "\<exists>c\<in>set s. \<not> is_ascii_hexdigit c \<Longrightarrow> join_chars j s = Err (bad_char s)"
  by (induction s arbitrary: j) (auto simp: bad_char_def)

lemma join_tokens_Err:
  "\<exists>c\<in>set (concat ts). \<not> is_ascii_hexdigit c \<Longrightarrow> join_tokens j ts = Err (bad_char (concat ts))"
proof (induction ts arbitrary: j)
  case Nil
  then show ?case by simp
next
  case (Cons t ts)
  show ?case
  proof (cases "\<exists>c\<in>set t. \<not> is_ascii_hexdigit c")
    case True
    then have "bad_char t = bad_char (t @ concat ts)"
      by (auto simp: bad_char_def dropWhile_append)
    with True show ?thesis by (simp add: join_chars_Err)
  next
    case False
    then have "bad_char (t @ concat ts) = bad_char (concat ts)"
      by (simp add: bad_char_def dropWhile_append)
    moreover from False have "join_chars j t = Ok (j @ t)" by (simp add: join_chars_Ok_iff)
    ultimately show ?thesis using Cons False by auto
  qed
qed

lemma hexdigit_ascii: "is_ascii_hexdigit c \<Longrightarrow> code c < 128"
  by (auto simp: is_ascii_hexdigit_def is_ascii_digit_def)

lemma hexdigit_not_sign: "is_ascii_hexdigit c \<Longrightarrow> c \<noteq> CHR ''+'' \<and> c \<noteq> CHR ''-''"
  by (auto simp: is_ascii_hexdigit_def is_ascii_digit_def)

lemma to_digit_16_hexdigit:
  "is_ascii_hexdigit c \<Longrightarrow> to_digit 16 c = Some (hex_value c) \<and> hex_value c < 16"
  unfolding hex_value_def using to_digit_16_iff [of c] to_digit_less [of 16 c] by auto

lemma parse_pair_hexdigits:
  assumes a: "is_ascii_hexdigit a" and b: "is_ascii_hexdigit b"
  shows "parse_pair [a, b] = Ok (word_of_nat (hex_value a * 16 + hex_value b))"
proof -
  have v: "to_digit 16 a = Some (hex_value a)" "hex_value a < 16"
    "to_digit 16 b = Some (hex_value b)" "hex_value b < 16"
    using to_digit_16_hexdigit a b by auto
  then have "from_str_radix 0 255 16 [a, b] = Ok (int (hex_value a * 16 + hex_value b))"
    using hexdigit_not_sign [OF a] by (simp add: from_str_radix_def Let_def)
  then show ?thesis
    using hexdigit_ascii [OF a] hexdigit_ascii [OF b] by (simp add: parse_pair_def)
qed

text \<open>The index loop computes what the reference decoder does on the rest of the digits.\<close>

lemma pair_loop_decode:
  assumes "\<forall>c\<in>set bytes. is_ascii_hexdigit c" and "even (length bytes)" and "even i"
  shows "pair_loop bytes i out = Ok (out @ decode_pairs (drop i bytes))"
  using assms
proof (induction bytes i out rule: pair_loop.induct)
  case (1 bytes i out)
  show ?case
  proof (cases "i < length bytes")
    case False
    then show ?thesis by (simp add: pair_loop.simps [of bytes i])
  next
    case True
    moreover have "Suc i \<noteq> length bytes" using "1.prems" by (metis even_Suc)
    ultimately have i: "Suc i < length bytes" by simp
    then have drop: "drop i bytes = bytes ! i # bytes ! Suc i # drop (i + 2) bytes"
      by (metis Cons_nth_drop_Suc Suc_lessD add_2_eq_Suc')
    have "is_ascii_hexdigit (bytes ! i)" "is_ascii_hexdigit (bytes ! Suc i)"
      using "1.prems"(1) i by auto
    note pp = parse_pair_hexdigits [OF this]
    then have p: "parse_pair (take 2 (drop i bytes)) =
        Ok (word_of_nat (hex_value (bytes ! i) * 16 + hex_value (bytes ! Suc i)))"
      by (simp add: drop)
    show ?thesis
      using "1.IH" [OF True p] "1.prems" True by (simp add: pair_loop.simps [of bytes i] pp drop)
  qed
qed

text \<open>The parser as a whole, against the reference.\<close>

lemma parse_hex_tokens_eq:
  "parse_hex_tokens ts =
     (let s = concat ts in
      if ts = [] then Err EmptyPayload
      else if \<exists>c\<in>set s. \<not> is_ascii_hexdigit c then Err (bad_char s)
      else if s = [] then Err EmptyPayload
      else if odd (length s) then Err (InvalidHex ''odd number of hex digits'')
      else Ok (decode_pairs s))"
proof (cases "\<exists>c\<in>set (concat ts). \<not> is_ascii_hexdigit c")
  case True
  then show ?thesis by (auto simp: parse_hex_tokens_def join_tokens_Err Let_def)
next
  case False
  then have "join_tokens [] ts = Ok (concat ts)" by (simp add: join_tokens_Ok_iff)
  with False show ?thesis
    by (auto simp: parse_hex_tokens_def pair_loop_decode Let_def even_iff_mod_2_eq_zero)
qed

lemma parse_hex_tokens_Ok_iff:
  "parse_hex_tokens ts = Ok bs \<longleftrightarrow>
     concat ts \<noteq> [] \<and> (\<forall>c\<in>set (concat ts). is_ascii_hexdigit c) \<and> even (length (concat ts)) \<and>
     bs = decode_pairs (concat ts)"
  by (auto simp: parse_hex_tokens_eq Let_def)

lemma parse_hex_tokens_nonempty: "parse_hex_tokens ts = Ok bs \<Longrightarrow> bs \<noteq> []"
  by (cases "concat ts" rule: decode_pairs.cases) (auto simp: parse_hex_tokens_Ok_iff)

section \<open>The formatter\<close>

lemma format_hex_from_eq:
  "format_hex_from i s bs = s @ (if bs = [] then [] else
     (if 0 < i then '' '' else []) @ join_with (CHR '' '') (map fmt_02X bs))"
  by (induction bs arbitrary: i s) (auto simp: neq_Nil_conv)

lemma format_hex_spaced_eq: "format_hex_spaced bs = join_with (CHR '' '') (map fmt_02X bs)"
  by (simp add: format_hex_spaced_def format_hex_from_eq)

lemma length_format_hex: "length (format_hex_spaced bs) = 3 * length bs - 1"
proof -
  have "\<forall>w\<in>set ws. length w = 2 \<Longrightarrow> length (join_with c ws) = 3 * length ws - 1" for c ws
    by (induction c ws rule: join_with.induct) auto
  then have "length (join_with (CHR '' '') (map fmt_02X bs)) = 3 * length bs - 1"
    by (simp add: fmt_02X_def)
  then show ?thesis by (simp add: format_hex_spaced_eq)
qed

lemma hexdigit_not_whitespace: "is_ascii_hexdigit c \<Longrightarrow> \<not> is_whitespace c"
  by (auto simp: is_ascii_hexdigit_def is_ascii_digit_def is_whitespace_def)

lemma fmt_02X_hexdigits: "c \<in> set (fmt_02X b) \<Longrightarrow> is_ascii_hexdigit c"
  using unat_u8_less [of b] by (auto simp: fmt_02X_def intro!: is_ascii_hexdigit_digit_char)

lemma hex_value_digit_char: "d < 16 \<Longrightarrow> hex_value (digit_char d) = d"
  by (simp add: hex_value_def to_digit_digit_char)

lemma decode_fmt: "decode_pairs (concat (map fmt_02X bs)) = bs"
proof (induction bs)
  case (Cons b bs)
  have "unat b div 16 < 16" using unat_u8_less [of b] by simp
  then have "word_of_nat (hex_value (digit_char (unat b div 16)) * 16 +
      hex_value (digit_char (unat b mod 16))) = b"
    by (simp add: hex_value_digit_char)
  with Cons show ?case by (simp add: fmt_02X_def)
qed simp

lemma parse_format_tokens: "bs \<noteq> [] \<Longrightarrow> parse_hex_tokens (map fmt_02X bs) = Ok bs"
proof -
  assume bs: "bs \<noteq> []"
  have "even (length (concat (map fmt_02X bs)))" by (induction bs) (auto simp: fmt_02X_def)
  moreover have "concat (map fmt_02X bs) \<noteq> []" using bs by (cases bs) (auto simp: fmt_02X_def)
  ultimately show ?thesis by (auto simp: parse_hex_tokens_Ok_iff decode_fmt dest: fmt_02X_hexdigits)
qed

lemma pieces_format:
  "sep (CHR '' '') \<Longrightarrow> \<forall>c. is_ascii_hexdigit c \<longrightarrow> \<not> sep c \<Longrightarrow>
     pieces sep (format_hex_spaced bs) = map fmt_02X bs"
  unfolding format_hex_spaced_eq
  by (rule pieces_join_with) (auto dest: fmt_02X_hexdigits, simp add: fmt_02X_def)

end
