(* ===== verification/Line_Parser.thy ===== *)
theory Line_Parser
  imports Messages Hex
begin

text \<open>
  The command line parser (\<open>repl/parser.rs\<close>): a raw line to a \<open>Command\<close>, an empty line, or
  an error.
\<close>

definition token_sep :: "char \<Rightarrow> bool" where
  "token_sep c \<longleftrightarrow> c = CHR '' '' \<or> c = CHR 0x09"

text \<open>
  \<open>split_host_port\<close>: an IPv6 literal in brackets, or everything up to the last colon.
\<close>

definition split_host_port :: "string \<Rightarrow> repl_error + string \<times> u16" where
  "split_host_port s =
     (case strip_prefix ''['' s of
        Some rest \<Rightarrow>
          (case find_char (CHR '']'') rest of
             None \<Rightarrow> Err (Parse (''malformed ipv6 literal: '' @ s))
           | Some e \<Rightarrow>
               let host = take e rest;
                   after = drop (e + 1) rest
               in (case strip_prefix '':'' after of
                     None \<Rightarrow> Err (Parse (''missing port after ipv6 literal: '' @ s))
                   | Some port_str \<Rightarrow>
                       (case parse_u16 port_str of
                          None \<Rightarrow> Err (Parse (''invalid port: '' @ port_str))
                        | Some p \<Rightarrow> Ok (host, p))))
      | None \<Rightarrow>
          (case rsplit_once (CHR '':'') s of
             None \<Rightarrow> Err (Parse (''expected host:port, got '' @ debug_str s))
           | Some (host, port_str) \<Rightarrow>
               (case parse_u16 port_str of
                  None \<Rightarrow> Err (Parse (''invalid port: '' @ port_str))
                | Some p \<Rightarrow> Ok (host, p))))"

definition parse_open_ipc :: "string list \<Rightarrow> repl_error + command option" where
  "parse_open_ipc args =
     (case args of
        [] \<Rightarrow> Err (Parse ''usage: open ipc server <path> | open ipc client <remote_path>'')
      | verb # _ \<Rightarrow>
          if verb = ''server''
          then (if length args \<noteq> 2 then Err (Parse ''usage: open ipc server <path>'')
                else Ok (Some (OpenIpcServer (args ! 1))))
          else if verb = ''client''
          then (if length args \<noteq> 2 then Err (Parse ''usage: open ipc client <remote_path>'')
                else Ok (Some (OpenIpcClient (args ! 1))))
          else Err (Parse (''unknown ipc variant: '' @ verb)))"

definition parse_open :: "string list \<Rightarrow> repl_error + command option" where
  "parse_open args =
     (case args of
        [] \<Rightarrow> Err (Parse (''usage: open server <port> | open ipc server <path> | open client '' @
                ''<local_port> <host>:<port> | open ipc client <local_path> <remote_path>''))
      | verb # rest \<Rightarrow>
          if verb = ''server''
          then (if length args \<noteq> 2 then Err (Parse ''usage: open server <port>'')
                else (case parse_u16 (args ! 1) of
                        None \<Rightarrow> Err (Parse (''invalid port: '' @ args ! 1))
                      | Some p \<Rightarrow> Ok (Some (OpenTcpServer p))))
          else if verb = ''client''
          then (if length args \<noteq> 3
                then Err (Parse ''usage: open client <local_port> <host>:<port>'')
                else (case parse_u16 (args ! 1) of
                        None \<Rightarrow> Err (Parse (''invalid local port: '' @ args ! 1))
                      | Some lp \<Rightarrow>
                          and_then (split_host_port (args ! 2))
                            (\<lambda>(host, rp). Ok (Some (OpenTcpClient lp host rp)))))
          else if verb = ''ipc'' then parse_open_ipc rest
          else Err (Parse (''unknown open variant: '' @ verb)))"

definition parse_line :: "string \<Rightarrow> repl_error + command option" where
  "parse_line raw =
     (let line = trim raw in
      if line = [] then Ok None
      else
        let tokens = filter (\<lambda>w. w \<noteq> []) (split_on token_sep line) in
        (case tokens of
           [] \<Rightarrow> Ok None
         | first # rest \<Rightarrow>
             if first = ''open'' then parse_open rest
             else if first = ''close''
             then (if length tokens \<noteq> 2 then Err (Parse ''usage: close <id>'')
                   else Ok (Some (Close (tokens ! 1))))
             else if first = ''label''
             then (if length tokens \<noteq> 3 then Err (Parse ''usage: label <id> <name>'')
                   else Ok (Some (Label (tokens ! 1) (tokens ! 2))))
             else if first = ''status''
             then (if length tokens \<noteq> 1 then Err (Parse ''usage: status'') else Ok (Some Status))
             else if length tokens < 2
             then Err (Parse ''expected `<id> <hex bytes...>` or a known command'')
             else and_then (map_err Domain (parse_hex_tokens rest))
                    (\<lambda>bytes. Ok (Some (Send first bytes)))))"

end
