(* ===== verification/Id_Map.thy ===== *)
theory Id_Map
  imports Conn_Id
begin

text \<open>
  The standard library's \<open>HashMap<ConnectionId, V>\<close> and \<open>HashSet<ConnectionId>\<close>, as far as
  the registry uses them. A map is the list of its entries in iteration order, each with the
  key that was stored first, and keys are compared with \<open>same_id\<close>. Rust leaves the iteration
  order open; theorems about the order of effects hold for every list.

  The contracts that the registry relies on are the locales \<open>id_dict\<close> and \<open>id_set\<close>,
  interpreted below on the operations of the model.
\<close>

section \<open>The interfaces\<close>

locale id_dict =
  fixes get :: "'m \<Rightarrow> 'k \<Rightarrow> 'v option"
    and insert_at :: "'k \<Rightarrow> 'v \<Rightarrow> 'm \<Rightarrow> 'm"
    and remove_at :: "'k \<Rightarrow> 'm \<Rightarrow> 'm"
    and update_at :: "'k \<Rightarrow> ('v \<Rightarrow> 'v) \<Rightarrow> 'm \<Rightarrow> 'm"
    and same :: "'k \<Rightarrow> 'k \<Rightarrow> bool"
  assumes get_insert: "get (insert_at k v m) j = (if same k j then Some v else get m j)"
    and get_remove: "get (remove_at k m) j = (if same k j then None else get m j)"
    and get_update: "get (update_at k f m) j = (if same k j then map_option f (get m j) else get m j)"
    and get_same: "same k j \<Longrightarrow> get m k = get m j"
    and same_equiv: "equivp same"
begin

lemma get_insert_same [simp]: "get (insert_at k v m) k = Some v"
  using same_equiv by (simp add: get_insert equivp_reflp)

lemma get_remove_same [simp]: "get (remove_at k m) k = None"
  using same_equiv by (simp add: get_remove equivp_reflp)

lemma get_remove_Some: "get (remove_at k m) j = Some v \<longleftrightarrow> \<not> same k j \<and> get m j = Some v"
  by (simp add: get_remove)

lemma get_remove_all:
  "get (fold remove_at ks m) j = (if \<exists>k\<in>set ks. same k j then None else get m j)"
  by (induction ks arbitrary: m) (auto simp: get_remove)

lemma present_insert: "get (insert_at k v m) j \<noteq> None \<longleftrightarrow> same k j \<or> get m j \<noteq> None"
  by (auto simp: get_insert)

lemma present_update [simp]: "get (update_at k f m) j = None \<longleftrightarrow> get m j = None"
  by (simp add: get_update)

end

locale id_set =
  fixes member_of :: "'k \<Rightarrow> 't \<Rightarrow> bool"
    and add_to :: "'k \<Rightarrow> 't \<Rightarrow> 't"
    and delete_from :: "'k \<Rightarrow> 't \<Rightarrow> 't"
    and same :: "'k \<Rightarrow> 'k \<Rightarrow> bool"
  assumes member_add: "member_of j (add_to k s) \<longleftrightarrow> same k j \<or> member_of j s"
    and member_delete: "member_of j (delete_from k s) \<longleftrightarrow> \<not> same k j \<and> member_of j s"
    and set_equiv: "equivp same"
begin

lemma member_add_same [simp]: "member_of k (add_to k s)"
  using set_equiv by (simp add: member_add equivp_reflp)

lemma member_delete_same [simp]: "\<not> member_of k (delete_from k s)"
  using set_equiv by (simp add: member_delete equivp_reflp)

lemma member_swap:
  "member_of j (add_to k (delete_from i s)) \<longleftrightarrow> same k j \<or> (\<not> same i j \<and> member_of j s)"
  by (auto simp: member_add member_delete)

end

section \<open>HashMap\<close>

type_synonym 'v idmap = "(connection_id \<times> 'v) list"

fun im_get :: "'v idmap \<Rightarrow> connection_id \<Rightarrow> 'v option" where
  "im_get [] i = None"
| "im_get ((k, v) # m) i = (if same_id k i then Some v else im_get m i)"

definition im_contains :: "'v idmap \<Rightarrow> connection_id \<Rightarrow> bool" where
  "im_contains m i \<longleftrightarrow> im_get m i \<noteq> None"

text \<open>\<open>insert\<close> keeps the stored key of an entry that is already there.\<close>

fun im_insert :: "connection_id \<Rightarrow> 'v \<Rightarrow> 'v idmap \<Rightarrow> 'v idmap" where
  "im_insert i v [] = [(i, v)]"
| "im_insert i v ((k, w) # m) = (if same_id k i then (k, v) # m else (k, w) # im_insert i v m)"

fun im_remove :: "connection_id \<Rightarrow> 'v idmap \<Rightarrow> 'v idmap" where
  "im_remove i [] = []"
| "im_remove i ((k, w) # m) = (if same_id k i then im_remove i m else (k, w) # im_remove i m)"

text \<open>What a \<open>get_mut\<close> followed by an assignment through the reference does.\<close>

fun im_update :: "connection_id \<Rightarrow> ('v \<Rightarrow> 'v) \<Rightarrow> 'v idmap \<Rightarrow> 'v idmap" where
  "im_update i f [] = []"
| "im_update i f ((k, w) # m) =
     (if same_id k i then (k, f w) # im_update i f m else (k, w) # im_update i f m)"

abbreviation im_keys :: "'v idmap \<Rightarrow> connection_id list" where
  "im_keys m \<equiv> map fst m"

text \<open>No two entries with equal keys: what every \<open>HashMap\<close> guarantees.\<close>

definition im_distinct :: "'v idmap \<Rightarrow> bool" where
  "im_distinct m \<longleftrightarrow> distinct (map (\<lambda>e. key (fst e)) m)"

section \<open>HashSet\<close>

type_synonym idset = "connection_id list"

definition is_member :: "connection_id \<Rightarrow> idset \<Rightarrow> bool" where
  "is_member i s \<longleftrightarrow> (\<exists>k\<in>set s. same_id k i)"

definition is_insert :: "connection_id \<Rightarrow> idset \<Rightarrow> idset" where
  "is_insert i s = (if is_member i s then s else s @ [i])"

definition is_remove :: "connection_id \<Rightarrow> idset \<Rightarrow> idset" where
  "is_remove i s = filter (\<lambda>k. \<not> same_id k i) s"

definition is_distinct :: "idset \<Rightarrow> bool" where
  "is_distinct s \<longleftrightarrow> distinct (map key s)"

section \<open>The contracts hold\<close>

lemma equivp_same_id: "equivp same_id"
  by (rule equivpI) (auto simp: reflp_def symp_def transp_def same_id_def)

lemma im_get_same: "same_id k j \<Longrightarrow> im_get m k = im_get m j"
  by (induction m) (auto simp: same_id_def)

lemma im_get_insert: "im_get (im_insert k v m) j = (if same_id k j then Some v else im_get m j)"
  by (induction m) (auto simp: same_id_def)

lemma im_get_remove: "im_get (im_remove k m) j = (if same_id k j then None else im_get m j)"
  by (induction m) (auto simp: same_id_def)

lemma im_get_update:
  "im_get (im_update k f m) j = (if same_id k j then map_option f (im_get m j) else im_get m j)"
  by (induction m) (auto simp: same_id_def)

interpretation idm: id_dict im_get im_insert im_remove im_update same_id
  by unfold_locales (simp_all add: im_get_insert im_get_remove im_get_update im_get_same equivp_same_id)

interpretation ids: id_set is_member is_insert is_remove same_id
  by unfold_locales
     (auto simp: is_member_def is_insert_def is_remove_def equivp_same_id same_id_def)

lemmas im_get_simps = im_get_insert im_get_remove im_get_update

section \<open>Entries and keys\<close>

definition im_dom :: "'v idmap \<Rightarrow> conn_key set" where
  "im_dom m = (\<lambda>e. key (fst e)) ` set m"

lemma im_dom_simps [simp]:
  "im_dom [] = {}"
  "im_dom (e # m) = insert (key (fst e)) (im_dom m)"
  by (simp_all add: im_dom_def)

lemma im_distinct_simps [simp]:
  "im_distinct []"
  "im_distinct (e # m) \<longleftrightarrow> key (fst e) \<notin> im_dom m \<and> im_distinct m"
  by (auto simp: im_distinct_def im_dom_def)

lemma im_get_None_iff: "im_get m i = None \<longleftrightarrow> key i \<notin> im_dom m"
  by (induction m) (auto simp: same_id_def split: if_splits)

lemma im_contains_iff: "im_contains m i \<longleftrightarrow> key i \<in> im_dom m"
  using im_get_None_iff [of m i] by (auto simp: im_contains_def)

lemma im_contains_key: "k \<in> set (im_keys m) \<Longrightarrow> im_contains m k"
  by (auto simp: im_contains_iff im_dom_def)

lemma im_get_SomeD: "im_get m i = Some v \<Longrightarrow> \<exists>k. (k, v) \<in> set m \<and> same_id k i"
  by (induction m) (auto split: if_splits)

lemma im_get_entry: "im_distinct m \<Longrightarrow> (k, v) \<in> set m \<Longrightarrow> im_get m k = Some v"
  by (induction m) (force simp: same_id_def im_dom_def image_iff split: if_splits)+

lemma keys_im_update [simp]: "im_keys (im_update i f m) = im_keys m"
  by (induction m) auto

lemma im_dom_update [simp]: "im_dom (im_update i f m) = im_dom m"
  by (induction m) (auto simp: same_id_def split: if_splits)

lemma im_distinct_update [simp]: "im_distinct (im_update i f m) = im_distinct m"
  by (induction m) (auto simp: same_id_def split: if_splits)

lemma im_dom_insert [simp]: "im_dom (im_insert i v m) = insert (key i) (im_dom m)"
proof (induction m)
  case (Cons e m) then show ?case by (cases e) (simp add: same_id_def insert_commute)
qed simp

lemma im_distinct_insert: "im_distinct m \<Longrightarrow> im_distinct (im_insert i v m)"
proof (induction m)
  case (Cons e m) then show ?case by (cases e; cases "same_id (fst e) i") (simp_all add: same_id_def)
qed simp

lemma im_dom_remove [simp]: "im_dom (im_remove i m) = im_dom m - {key i}"
proof (induction m)
  case (Cons e m) then show ?case by (cases e) (simp add: same_id_def insert_Diff_if)
qed simp

lemma im_distinct_remove: "im_distinct m \<Longrightarrow> im_distinct (im_remove i m)"
proof (induction m)
  case (Cons e m) then show ?case by (cases e) (simp add: same_id_def)
qed simp

lemma im_remove_filter: "im_remove i m = filter (\<lambda>e. \<not> same_id (fst e) i) m"
proof (induction m)
  case (Cons e m) then show ?case by (cases e) simp
qed simp

lemma im_remove_absent: "im_get m i = None \<Longrightarrow> im_remove i m = m"
  by (induction m) (auto split: if_splits)

lemma im_update_absent: "im_get m i = None \<Longrightarrow> im_update i f m = m"
  by (induction m) (auto split: if_splits)

lemma im_insert_absent: "im_get m i = None \<Longrightarrow> im_insert i v m = m @ [(i, v)]"
  by (induction m) (auto split: if_splits)

lemma im_get_append: "im_get (m @ n) i = (case im_get m i of None \<Rightarrow> im_get n i | Some v \<Rightarrow> Some v)"
  by (induction m) auto

lemma is_distinct_insert: "is_distinct s \<Longrightarrow> is_distinct (is_insert i s)"
  by (auto simp: is_distinct_def is_insert_def is_member_def same_id_def)

lemma is_distinct_remove: "is_distinct s \<Longrightarrow> is_distinct (is_remove i s)"
  by (auto simp: is_distinct_def is_remove_def distinct_map inj_on_def)

lemma is_member_in: "i \<in> set s \<Longrightarrow> is_member i s"
  unfolding is_member_def by (rule bexI [of _ i]) simp_all

lemma is_member_Nil [simp]: "\<not> is_member i []"
  by (simp add: is_member_def)

lemma is_member_same: "same_id i j \<Longrightarrow> is_member i s \<longleftrightarrow> is_member j s"
  by (auto simp: is_member_def same_id_def)

end
