(* ===== verification/Registry.thy ===== *)
theory Registry
  imports Messages Id_Map Hex
begin

text \<open>
  The registry (\<open>domain/registry.rs\<close>): its state and every operation but the status
  rendering and the token parser, which have theories of their own.

  An operation takes the registry and returns the new one, with the list of the effects it has
  outside the registry, in order: lines sent to the display, tasks spawned and aborted, streams
  dropped, socket files removed, replies and log lines.
  Streams are written through \<open>stream_ops\<close>, tokio's \<open>write_all\<close> and \<open>flush\<close>: parameters of the
  model that return the error's text, if any, and the stream afterwards.
\<close>

section \<open>State\<close>

type_synonym task = nat \<comment> \<open>a \<open>JoinHandle\<close>\<close>
type_synonym accept_loop = nat \<comment> \<open>a \<open>Box<dyn AcceptLoop>\<close>\<close>

record 's stream_handle =
  sh_state :: connection_state
  sh_stream :: 's
  sh_read_task :: task
  sh_parent :: "connection_id option"

record server_handle =
  sv_state :: connection_state
  sv_accept_task :: task
  sv_children :: idset
  sv_ipc_path :: "path option"
  sv_disambig_next :: "string \<rightharpoonup> u32"
  sv_base_no_suffix :: "string \<rightharpoonup> connection_id"

record 's registry =
  streams :: "'s stream_handle idmap"
  servers :: "server_handle idmap"
  labels :: "string \<rightharpoonup> connection_id"
  next_ipc_client_seq :: u32

definition new_registry :: "'s registry" where
  "new_registry = \<lparr>streams = [], servers = [], labels = Map.empty, next_ipc_client_seq = 1\<rparr>"

datatype 's effect =
    Display string
  | SpawnRead task connection_id
  | SpawnAccept task connection_id accept_loop
  | AbortTask task
  | DropStream 's
  | RemoveFile path
  | Reply command_outcome
  | LogInfo string
  | LogWarn string

type_synonym 's effects = "'s effect list"

record 's stream_ops =
  io_write_all :: "'s \<Rightarrow> u8 list \<Rightarrow> string option \<times> 's"
  io_flush :: "'s \<Rightarrow> string option \<times> 's"

abbreviation registered :: "'s registry \<Rightarrow> connection_id \<Rightarrow> bool" where
  "registered r i \<equiv> im_contains (streams r) i \<or> im_contains (servers r) i"

section \<open>Sequence numbers\<close>

text \<open>\<open>u32::saturating_add\<close>: the sum, or the largest value when the sum has wrapped around.\<close>

definition saturating_add :: "u32 \<Rightarrow> u32 \<Rightarrow> u32" where
  "saturating_add a b = (if a + b < a then - 1 else a + b)"

lemma unat_saturating_add: "unat (saturating_add a b) = min (unat a + unat b) 4294967295"
proof (cases "unat a + unat b < 4294967296")
  case True
  then have "unat (a + b) = unat a + unat b" by (simp add: unat_word_ariths)
  with True show ?thesis by (simp add: saturating_add_def word_less_nat_alt)
next
  case False
  have "unat (a + b) = (unat a + unat b) mod 4294967296" by (simp add: unat_word_ariths)
  also have "\<dots> = unat a + unat b - 4294967296"
    using False unat_u32_less [of a] unat_u32_less [of b] by (simp add: mod_if)
  finally have "a + b < a" using unat_u32_less [of b] False by (simp add: word_less_nat_alt)
  moreover have "unat (- 1 :: u32) = 4294967295" by (simp add: unsigned_minus_1_eq_mask mask_eq_exp_minus_1)
  ultimately show ?thesis using False by (simp add: saturating_add_def)
qed

definition alloc_ipc_client_seq :: "'s registry \<Rightarrow> u32 \<times> 's registry" where
  "alloc_ipc_client_seq r =
     (let n = next_ipc_client_seq r
      in (n, r\<lparr>next_ipc_client_seq := saturating_add n 1\<rparr>))"

section \<open>Names and labels\<close>

definition resolve_id ::
  "'s registry \<Rightarrow> string \<Rightarrow> (string \<Rightarrow> connection_id list) \<Rightarrow> domain_error + connection_id" where
  "resolve_id r token parser =
     (case labels r token of
        Some i \<Rightarrow> Ok i
      | None \<Rightarrow>
          (case find (\<lambda>i. im_contains (streams r) i \<or> im_contains (servers r) i) (parser token) of
             Some i \<Rightarrow> Ok i
           | None \<Rightarrow> Err (UnknownId token)))"

definition stream_label :: "'s registry \<Rightarrow> connection_id \<Rightarrow> string option" where
  "stream_label r i = Option.bind (im_get (streams r) i) (\<lambda>h. cs_label (sh_state h))"

definition server_label :: "'s registry \<Rightarrow> connection_id \<Rightarrow> string option" where
  "server_label r i = Option.bind (im_get (servers r) i) (\<lambda>h. cs_label (sv_state h))"

definition display_name :: "'s registry \<Rightarrow> connection_id \<Rightarrow> string" where
  "display_name r i =
     (case stream_label r i of
        Some l \<Rightarrow> l
      | None \<Rightarrow> (case server_label r i of Some l \<Rightarrow> l | None \<Rightarrow> show_id i))"

definition current_label :: "'s registry \<Rightarrow> connection_id \<Rightarrow> string option" where
  "current_label r i =
     (if im_contains (streams r) i then stream_label r i
      else if im_contains (servers r) i then server_label r i
      else None)"

definition label_stream :: "string \<Rightarrow> 's stream_handle \<Rightarrow> 's stream_handle" where
  "label_stream name h = h\<lparr>sh_state := (sh_state h)\<lparr>cs_label := Some name\<rparr>\<rparr>"

definition label_server :: "string \<Rightarrow> server_handle \<Rightarrow> server_handle" where
  "label_server name h = h\<lparr>sv_state := (sv_state h)\<lparr>cs_label := Some name\<rparr>\<rparr>"

definition forget_label :: "string option \<Rightarrow> 's registry \<Rightarrow> 's registry" where
  "forget_label l r = (case l of Some n \<Rightarrow> r\<lparr>labels := (labels r)(n := None)\<rparr> | None \<Rightarrow> r)"

definition apply_label ::
  "connection_id \<Rightarrow> string \<Rightarrow> 's registry \<Rightarrow> (domain_error + unit) \<times> 's registry" where
  "apply_label i name r =
     (if (case labels r name of Some existing \<Rightarrow> \<not> same_id existing i | None \<Rightarrow> False)
      then (Err (LabelAlreadyInUse name), r)
      else
        let r1 = forget_label (current_label r i) r in
        if im_contains (streams r1) i
        then (Ok (), r1\<lparr>streams := im_update i (label_stream name) (streams r1),
                        labels := (labels r1)(name \<mapsto> i)\<rparr>)
        else if im_contains (servers r1) i
        then (Ok (), r1\<lparr>servers := im_update i (label_server name) (servers r1),
                        labels := (labels r1)(name \<mapsto> i)\<rparr>)
        else (Err (UnknownId (show_id i)), r1))"

section \<open>Adding and removing connections\<close>

definition update_children ::
  "(idset \<Rightarrow> idset) \<Rightarrow> connection_id option \<Rightarrow> 's registry \<Rightarrow> 's registry" where
  "update_children f p r =
     (case p of
        Some pid \<Rightarrow>
          r\<lparr>servers := im_update pid (\<lambda>srv. srv\<lparr>sv_children := f (sv_children srv)\<rparr>) (servers r)\<rparr>
      | None \<Rightarrow> r)"

text \<open>A handle that \<open>HashMap::insert\<close> displaces is dropped, and its stream with it.\<close>

definition displaced :: "'s stream_handle option \<Rightarrow> 's effects" where
  "displaced old = (case old of Some h \<Rightarrow> [DropStream (sh_stream h)] | None \<Rightarrow> [])"

definition insert_stream :: "'s stream_handle \<Rightarrow> 's registry \<Rightarrow> 's registry \<times> 's effects" where
  "insert_stream h r =
     (let i = cs_id (sh_state h);
          r1 = update_children (is_insert i) (sh_parent h) r
      in (r1\<lparr>streams := im_insert i h (streams r1)\<rparr>, displaced (im_get (streams r1) i)))"

definition drop_stream :: "connection_id \<Rightarrow> 's registry \<Rightarrow> 's registry \<times> 's effects" where
  "drop_stream i r =
     (case im_get (streams r) i of
        None \<Rightarrow> (r, [])
      | Some h0 \<Rightarrow>
          let r1 = r\<lparr>streams := im_remove i (streams r)\<rparr>;
              h = h0\<lparr>sh_state := on_closed (sh_state h0)\<rparr>;
              r2 = update_children (is_remove i) (sh_parent h) r1
          in (forget_label (cs_label (sh_state h)) r2,
              [AbortTask (sh_read_task h), DropStream (sh_stream h)]))"

fun drop_streams :: "connection_id list \<Rightarrow> 's registry \<Rightarrow> 's registry \<times> 's effects" where
  "drop_streams [] r = (r, [])"
| "drop_streams (c # cs) r =
     (let (r1, e1) = drop_stream c r; (r2, e2) = drop_streams cs r1 in (r2, e1 @ e2))"

definition drop_server :: "connection_id \<Rightarrow> 's registry \<Rightarrow> 's registry \<times> 's effects" where
  "drop_server i r =
     (case im_get (servers r) i of
        None \<Rightarrow> (r, [])
      | Some srv \<Rightarrow>
          let r1 = r\<lparr>servers := im_remove i (servers r)\<rparr>;
              (r2, e) = drop_streams (sv_children srv) r1;
              unlink = (case sv_ipc_path srv of Some p \<Rightarrow> [RemoveFile p] | None \<Rightarrow> [])
          in (forget_label (cs_label (sv_state srv)) r2,
              [AbortTask (sv_accept_task srv)] @ e @ unlink))"

fun drop_servers :: "connection_id list \<Rightarrow> 's registry \<Rightarrow> 's registry \<times> 's effects" where
  "drop_servers [] r = (r, [])"
| "drop_servers (c # cs) r =
     (let (r1, e1) = drop_server c r; (r2, e2) = drop_servers cs r1 in (r2, e1 @ e2))"

definition shutdown :: "'s registry \<Rightarrow> 's registry \<times> 's effects" where
  "shutdown r =
     (let (r1, e1) = drop_servers (im_keys (servers r)) r;
          (r2, e2) = drop_streams (im_keys (streams r1)) r1
      in (r2, e1 @ e2))"

section \<open>Sending\<close>

definition set_stream :: "'s \<Rightarrow> 's stream_handle \<Rightarrow> 's stream_handle" where
  "set_stream s h = h\<lparr>sh_stream := s\<rparr>"

definition write_to_stream ::
  "'s stream_ops \<Rightarrow> connection_id \<Rightarrow> u8 list \<Rightarrow> 's registry \<Rightarrow> (domain_error + unit) \<times> 's registry" where
  "write_to_stream io i bytes r =
     (case im_get (streams r) i of
        None \<Rightarrow> (Err (UnknownId (show_id i)), r)
      | Some h \<Rightarrow>
          if cs_status (sh_state h) = Closed \<or> cs_status (sh_state h) = Closing
          then (Err (Logic (show_id i @ '' is not writable'')), r)
          else
            (case io_write_all io (sh_stream h) bytes of
               (Some e, s1) \<Rightarrow> (Err (Io e), r\<lparr>streams := im_update i (set_stream s1) (streams r)\<rparr>)
             | (None, s1) \<Rightarrow>
                 (case io_flush io s1 of
                    (Some e, s2) \<Rightarrow> (Err (Io e), r\<lparr>streams := im_update i (set_stream s2) (streams r)\<rparr>)
                  | (None, s2) \<Rightarrow> (Ok (), r\<lparr>streams := im_update i (set_stream s2) (streams r)\<rparr>))))"

text \<open>The loop over the children of a server: a failure is reported and the loop goes on.\<close>

fun broadcast ::
  "'s stream_ops \<Rightarrow> connection_id list \<Rightarrow> u8 list \<Rightarrow> 's registry \<Rightarrow> 's registry \<times> 's effects" where
  "broadcast io [] bytes r = (r, [])"
| "broadcast io (c # cs) bytes r =
     (let (res, r1) = write_to_stream io c bytes r;
          e1 = (case res of
                  Inl e \<Rightarrow> [Display (''['' @ display_name r1 c @ ''] ERROR '' @ show_domain_error e)]
                | Inr _ \<Rightarrow> []);
          (r2, e2) = broadcast io cs bytes r1
      in (r2, e1 @ e2))"

definition send_bytes ::
  "'s stream_ops \<Rightarrow> connection_id \<Rightarrow> u8 list \<Rightarrow> 's registry
     \<Rightarrow> (domain_error + unit) \<times> 's registry \<times> 's effects" where
  "send_bytes io target bytes r =
     (if bytes = [] then (Err EmptyPayload, r, [])
      else if is_server target
      then (case im_get (servers r) target of
              None \<Rightarrow> (Err (UnknownId (show_id target)), r, [])
            | Some srv \<Rightarrow>
                if sv_children srv = []
                then (Err (ServerHasNoChildren (show_id target)), r, [])
                else let (r1, e) = broadcast io (sv_children srv) bytes r in (Ok (), r1, e))
      else let (res, r1) = write_to_stream io target bytes r in (res, r1, []))"

section \<open>Events\<close>

definition on_received :: "connection_id \<Rightarrow> u8 list \<Rightarrow> 's registry \<Rightarrow> 's effects" where
  "on_received i bytes r =
     [Display (''['' @ display_name r i @ ''] RECV '' @ format_hex_spaced bytes)]"

definition on_closed_event :: "connection_id \<Rightarrow> 's registry \<Rightarrow> 's registry \<times> 's effects" where
  "on_closed_event i r =
     (if \<not> im_contains (streams r) i then (r, [])
      else let name = display_name r i;
               (r1, e) = drop_stream i r
           in (r1, e @ [Display (''['' @ name @ ''] CLOSED'')]))"

definition on_error_event :: "connection_id \<Rightarrow> string \<Rightarrow> 's registry \<Rightarrow> 's effects" where
  "on_error_event i msg r = [Display (''['' @ display_name r i @ ''] ERROR '' @ msg)]"

section \<open>Accepted identifiers\<close>

definition rename_accepted_tcp ::
  "connection_id \<Rightarrow> connection_id \<Rightarrow> 's registry \<Rightarrow> 's registry \<times> 's effects" where
  "rename_accepted_tcp old new r =
     (case im_get (streams r) old of
        None \<Rightarrow> (r, [])
      | Some h0 \<Rightarrow>
          let r1 = r\<lparr>streams := im_remove old (streams r)\<rparr>;
              h = h0\<lparr>sh_state := (sh_state h0)\<lparr>cs_id := new\<rparr>\<rparr>;
              r2 = update_children (\<lambda>s. is_insert new (is_remove old s)) (sh_parent h) r1
          in (r2\<lparr>streams := im_insert new h (streams r2)\<rparr>, displaced (im_get (streams r2) new)))"

definition rename_accepted_ipc ::
  "connection_id \<Rightarrow> connection_id \<Rightarrow> 's registry \<Rightarrow> 's registry \<times> 's effects" where
  "rename_accepted_ipc old new r = rename_accepted_tcp old new r"

text \<open>
  Both allocators panic (\<open>expect\<close>, the value \<open>None\<close>) when the parent server is not there.
\<close>

type_synonym 's allocation = "(connection_id \<times> net_event option \<times> 's registry \<times> 's effects) option"

definition set_base :: "string \<Rightarrow> connection_id option \<Rightarrow> server_handle \<Rightarrow> server_handle" where
  "set_base b i srv = srv\<lparr>sv_base_no_suffix := (sv_base_no_suffix srv)(b := i)\<rparr>"

definition set_next :: "string \<Rightarrow> u32 \<Rightarrow> server_handle \<Rightarrow> server_handle" where
  "set_next b n srv = srv\<lparr>sv_disambig_next := (sv_disambig_next srv)(b \<mapsto> n)\<rparr>"

definition allocate_accepted_tcp_id :: "u16 \<Rightarrow> u16 \<Rightarrow> 's registry \<Rightarrow> 's allocation" where
  "allocate_accepted_tcp_id pport rport r =
     (let base = show_word pport @ ''.'' @ show_word rport;
          parent = TcpServer pport
      in case im_get (servers r) parent of
           None \<Rightarrow> None
         | Some srv \<Rightarrow>
             if sv_base_no_suffix srv base = None \<and> sv_disambig_next srv base = None
             then let i = AcceptedTcp pport rport None
                  in Some (i, None, r\<lparr>servers := im_update parent (set_base base (Some i)) (servers r)\<rparr>, [])
             else (case sv_base_no_suffix srv base of
                Some old \<Rightarrow>
                  let first = AcceptedTcp pport rport (Some 1);
                      r1 = r\<lparr>servers := im_update parent (set_base base None) (servers r)\<rparr>;
                      (r2, e) = rename_accepted_tcp old first r1
                  in (case im_get (servers r2) parent of
                        None \<Rightarrow> None
                      | Some _ \<Rightarrow>
                          Some (AcceptedTcp pport rport (Some 2), Some (Renamed first old),
                                r2\<lparr>servers := im_update parent (set_next base 2) (servers r2)\<rparr>, e))
              | None \<Rightarrow>
                  let this = (case sv_disambig_next srv base of Some n \<Rightarrow> n | None \<Rightarrow> 1)
                  in Some (AcceptedTcp pport rport (Some this), None,
                           r\<lparr>servers := im_update parent (set_next base (this + 1)) (servers r)\<rparr>, [])))"

definition allocate_accepted_ipc_id :: "path \<Rightarrow> i32 \<Rightarrow> 's registry \<Rightarrow> 's allocation" where
  "allocate_accepted_ipc_id ppath pd r =
     (let base = ppath @ ''.'' @ show_i32 pd;
          parent = IpcServer ppath
      in case im_get (servers r) parent of
           None \<Rightarrow> None
         | Some srv \<Rightarrow>
             if sv_base_no_suffix srv base = None \<and> sv_disambig_next srv base = None
             then let i = AcceptedIpc ppath pd None
                  in Some (i, None, r\<lparr>servers := im_update parent (set_base base (Some i)) (servers r)\<rparr>, [])
             else (case sv_base_no_suffix srv base of
                Some old \<Rightarrow>
                  let first = AcceptedIpc ppath pd (Some 1);
                      r1 = r\<lparr>servers := im_update parent (set_base base None) (servers r)\<rparr>;
                      (r2, e) = rename_accepted_ipc old first r1
                  in (case im_get (servers r2) parent of
                        None \<Rightarrow> None
                      | Some _ \<Rightarrow>
                          Some (AcceptedIpc ppath pd (Some 2), Some (Renamed first old),
                                r2\<lparr>servers := im_update parent (set_next base 2) (servers r2)\<rparr>, e))
              | None \<Rightarrow>
                  let this = (case sv_disambig_next srv base of Some n \<Rightarrow> n | None \<Rightarrow> 1)
                  in Some (AcceptedIpc ppath pd (Some this), None,
                           r\<lparr>servers := im_update parent (set_next base (this + 1)) (servers r)\<rparr>, [])))"

section \<open>The label command\<close>

definition cmd_label :: "connection_id \<Rightarrow> string \<Rightarrow> 's registry \<Rightarrow> command_outcome \<times> 's registry" where
  "cmd_label i name r =
     (case apply_label i name r of
        (Inr _, r1) \<Rightarrow> (outcome_ok (''labeled '' @ show_id i @ '' as '' @ name), r1)
      | (Inl e, r1) \<Rightarrow> (outcome_err (show_domain_error e), r1))"

end
