(* ===== verification/Token_Parser.thy ===== *)
theory Token_Parser
  imports Registry
begin

text \<open>
  \<open>default_token_parser\<close> of \<open>domain/registry.rs\<close>: the identifiers a typed token may stand
  for, in the order \<open>resolve_id\<close> tries them.
\<close>

text \<open>\<open>parent.remote#N\<close>.\<close>

definition parse_suffixed :: "string \<Rightarrow> connection_id option" where
  "parse_suffixed token =
     (case split_once (CHR ''#'') token of
        None \<Rightarrow> None
      | Some (left, right) \<Rightarrow>
          (case split_once (CHR ''.'') left of
             None \<Rightarrow> None
           | Some (p, r) \<Rightarrow>
               (case (parse_u16 p, parse_u16 r, parse_u32 right) of
                  (Some pp, Some rp, Some n) \<Rightarrow> Some (AcceptedTcp pp rp (Some n))
                | _ \<Rightarrow> None)))"

text \<open>\<open>parent.remote\<close> without a suffix, or \<open><ipc_path>.<pid>\<close>.\<close>

definition parse_dotted :: "string \<Rightarrow> connection_id list" where
  "parse_dotted token =
     (case rsplit_once (CHR ''.'') token of
        None \<Rightarrow> []
      | Some (left, right) \<Rightarrow>
          (case (parse_u16 left, parse_u16 right) of
             (Some pp, Some rp) \<Rightarrow> [AcceptedTcp pp rp None]
           | _ \<Rightarrow> []) @
          (if starts_with ''/'' left
           then (case parse_i32 right of Some pd \<Rightarrow> [AcceptedIpc left pd None] | None \<Rightarrow> [])
           else []))"

definition default_token_parser :: "string \<Rightarrow> connection_id list" where
  "default_token_parser token =
     (case Option.bind (strip_prefix ''ipc:'' token) parse_u32 of
        Some n \<Rightarrow> [IpcClient n]
      | None \<Rightarrow>
          (case parse_u16 token of
             Some p \<Rightarrow> [TcpServer p, TcpClient p]
           | None \<Rightarrow>
               (case parse_suffixed token of
                  Some i \<Rightarrow> [i]
                | None \<Rightarrow>
                    parse_dotted token @
                    (if starts_with ''/'' token then [IpcServer token] else []))))"

end
