(* ===== verification/Codec_Properties.thy ===== *)
theory Codec_Properties
  imports Line_Parser Token_Parser
begin

text \<open>
  Properties of the text formats: hex payloads, command lines and the tokens that address a
  connection. \<open>parse_words\<close> is \<open>parse_line\<close> after the line has been cut into words;
  \<open>command_words\<close> is a printer of commands that the parser is shown to invert.
\<close>

section \<open>Payloads\<close>

text \<open>C22: The hex parser depends only on the characters of its tokens, put together: the first
  character that is no hex digit decides the error, then emptiness, then an odd length, and
  otherwise the result is what the reference decoder reads off the pairs.\<close>

theorem hex_parse_spec:
  "parse_hex_tokens ts =
     (let s = concat ts in
      if list_ex (\<lambda>c. \<not> is_ascii_hexdigit c) s then Err (bad_char s)
      else if s = [] then Err EmptyPayload
      else if odd (length s) then Err (InvalidHex ''odd number of hex digits'')
      else Ok (decode_pairs s))"
  by (auto simp: parse_hex_tokens_eq Let_def list_ex_iff)

section \<open>Lines\<close>

text \<open>A word of a command line: no white space, and not empty.\<close>

definition plain_word :: "string \<Rightarrow> bool" where
  "plain_word w \<longleftrightarrow> w \<noteq> [] \<and> list_all (\<lambda>c. \<not> is_whitespace c) w"

lemma token_sep_whitespace: "token_sep c \<Longrightarrow> is_whitespace c"
  by (auto simp: token_sep_def is_whitespace_def)

lemma plain_wordD: "plain_word w \<Longrightarrow> w \<noteq> [] \<and> (\<forall>c\<in>set w. \<not> is_whitespace c) \<and> (\<forall>c\<in>set w. \<not> token_sep c)"
  using token_sep_whitespace by (auto simp: plain_word_def list_all_iff)

definition parse_words :: "string list \<Rightarrow> repl_error + command option" where
  "parse_words tokens =
     (case tokens of
        [] \<Rightarrow> Ok None
      | first # rest \<Rightarrow>
          if first = ''open'' then parse_open rest
          else if first = ''close''
          then (if length tokens \<noteq> 2 then Err (Parse ''usage: close <id>'')
                else Ok (Some (Close (tokens ! 1))))
          else if first = ''label''
          then (if length tokens \<noteq> 3 then Err (Parse ''usage: label <id> <name>'')
                else Ok (Some (Label (tokens ! 1) (tokens ! 2))))
          else if first = ''status''
          then (if length tokens \<noteq> 1 then Err (Parse ''usage: status'') else Ok (Some Status))
          else if length tokens < 2
          then Err (Parse ''expected `<id> <hex bytes...>` or a known command'')
          else and_then (map_err Domain (parse_hex_tokens rest))
                 (\<lambda>bytes. Ok (Some (Send first bytes))))"

lemma parse_line_words: "parse_line raw = parse_words (pieces token_sep (trim raw))"
proof (cases "trim raw = []")
  case True
  then show ?thesis by (simp add: parse_line_def parse_words_def del: trim_eq_Nil_iff)
next
  case False
  then show ?thesis
    unfolding parse_line_def parse_words_def pieces_def Let_def by (simp only: if_False)
qed

lemma parse_line_join:
  assumes "ws \<noteq> []" and "list_all plain_word ws"
  shows "parse_line (join_with (CHR '' '') ws) = parse_words ws"
proof -
  have w: "\<forall>w\<in>set ws. w \<noteq> [] \<and> (\<forall>c\<in>set w. \<not> is_whitespace c)"
    "\<forall>w\<in>set ws. w \<noteq> [] \<and> (\<forall>c\<in>set w. \<not> token_sep c)"
    using assms(2) plain_wordD by (auto simp: list_all_iff)
  have "token_sep (CHR '' '')" by (simp add: token_sep_def)
  with w assms(1) show ?thesis by (simp add: parse_line_words trim_join_with pieces_join_with)
qed

lemma trim_surround:
  assumes "list_all is_whitespace l" and "list_all is_whitespace r"
  shows "trim (l @ s @ r) = trim s"
proof (cases "\<forall>c\<in>set s. is_whitespace c")
  case True
  then have "trim s = []" by simp
  moreover have "trim (l @ s @ r) = []"
    unfolding trim_eq_Nil_iff using True assms by (auto simp: list_all_iff)
  ultimately show ?thesis by (simp only:)
next
  case False
  have "dropWhile is_whitespace (l @ s @ r) = dropWhile is_whitespace (s @ r)"
    using assms(1) by (simp add: dropWhile_append2 list_all_iff)
  also have "\<dots> = dropWhile is_whitespace s @ r"
    using False by (auto simp: dropWhile_append1)
  finally have "trim (l @ s @ r) = rev (dropWhile is_whitespace (rev r @ rev (dropWhile is_whitespace s)))"
    by (simp add: trim_def)
  also have "\<dots> = trim s"
    using assms(2) dropWhile_append2 [of "rev r" is_whitespace] by (simp add: list_all_iff trim_def)
  finally show ?thesis .
qed

text \<open>C23: Printing bytes the way received bytes are displayed and typing them after an
  identifier gives the send command with the same bytes back.\<close>

theorem send_line_roundtrip:
  assumes "plain_word tok" and "tok \<notin> set [''open'', ''close'', ''label'', ''status'']"
    and "bytes \<noteq> []"
  shows "parse_line (tok @ '' '' @ format_hex_spaced bytes) = Ok (Some (Send tok bytes))"
proof -
  let ?ws = "tok # map fmt_02X bytes"
  have line: "tok @ '' '' @ format_hex_spaced bytes = join_with (CHR '' '') ?ws"
    using assms(3) by (cases bytes) (simp_all add: format_hex_spaced_eq)
  have "plain_word (fmt_02X b)" for b
    using fmt_02X_hexdigits [of _ b] hexdigit_not_whitespace
    by (auto simp: plain_word_def list_all_iff) (simp add: fmt_02X_def)
  then have "list_all plain_word ?ws" using assms(1) by (simp add: list_all_iff)
  then have "parse_line (tok @ '' '' @ format_hex_spaced bytes) = parse_words ?ws"
    unfolding line by (intro parse_line_join) simp_all
  also have "\<dots> = Ok (Some (Send tok bytes))"
    using assms(2,3) by (simp add: parse_words_def parse_format_tokens)
  finally show ?thesis .
qed

theorem send_line_roundtrip_witness:
  "parse_line (''10016'' @ '' '' @ format_hex_spaced [222, 173, 0]) = Ok (Some (Send ''10016'' [222, 173, 0]))"
  by (rule send_line_roundtrip) (simp_all add: plain_word_def is_whitespace_def)

text \<open>A line is taken as empty exactly when it has nothing but white space.\<close>

lemma blank_line_iff: "parse_line raw = Ok None \<longleftrightarrow> list_all is_whitespace raw"
proof -
  have words: "parse_words ws = Ok None \<longleftrightarrow> ws = []" for ws
    by (auto simp: parse_words_def parse_open_def parse_open_ipc_def and_then_Ok_iff
        split: list.splits if_splits option.splits)
  have "pieces token_sep (trim raw) = [] \<longleftrightarrow> trim raw = []"
  proof
    assume p: "pieces token_sep (trim raw) = []"
    show "trim raw = []"
    proof (rule ccontr)
      assume ne: "trim raw \<noteq> []"
      then have "rev (dropWhile is_whitespace raw) \<noteq> [] \<and>
          dropWhile is_whitespace (rev (dropWhile is_whitespace raw)) \<noteq> []"
        unfolding trim_def by (cases "dropWhile is_whitespace raw") auto
      then have "\<not> is_whitespace (last (trim raw))"
        unfolding trim_def last_rev using hd_dropWhile by blast
      moreover have "token_sep (last (trim raw))" using p ne by (simp add: pieces_eq_Nil_iff)
      ultimately show False using token_sep_whitespace by blast
    qed
  qed (simp del: trim_eq_Nil_iff)
  with words show ?thesis by (simp add: parse_line_words list_all_iff)
qed

text \<open>White space around a line does not change what it parses to.\<close>

lemma parse_line_trims:
  "list_all is_whitespace l \<Longrightarrow> list_all is_whitespace r \<Longrightarrow> parse_line (l @ raw @ r) = parse_line raw"
  by (simp add: parse_line_words trim_surround)

text \<open>A send command from the prompt always has bytes, and is addressed to a word that is no
  keyword: the registry never sees an empty payload from the prompt.\<close>

lemma send_line_has_bytes:
  assumes "parse_line raw = Ok (Some (Send tok bytes))"
  shows "bytes \<noteq> [] \<and> tok \<noteq> [] \<and> tok \<notin> set [''open'', ''close'', ''label'', ''status'']"
proof -
  let ?ws = "pieces token_sep (trim raw)"
  from assms have "parse_words ?ws = Ok (Some (Send tok bytes))" by (simp add: parse_line_words)
  then have "\<exists>rest. ?ws = tok # rest \<and> parse_hex_tokens rest = Ok bytes \<and>
      tok \<notin> set [''open'', ''close'', ''label'', ''status'']"
    by (auto simp: parse_words_def parse_open_def parse_open_ipc_def and_then_Ok_iff
        split: list.splits if_splits option.splits)
  then show ?thesis
    using parse_hex_tokens_nonempty pieces_no_sep [of tok token_sep "trim raw"] by auto
qed

section \<open>Every command can be typed\<close>

text \<open>How a host is written before the port: in brackets when it has a colon.\<close>

definition host_port :: "string \<Rightarrow> u16 \<Rightarrow> string" where
  "host_port host p =
     (if CHR '':'' \<in> set host then ''['' @ host @ '']:'' @ show_word p else host @ '':'' @ show_word p)"

definition host_ok :: "string \<Rightarrow> bool" where
  "host_ok host \<longleftrightarrow>
     list_all (\<lambda>c. \<not> is_whitespace c) host \<and> CHR '']'' \<notin> set host \<and> \<not> starts_with ''['' host"

lemma split_host_port_printed:
  "host_ok host \<Longrightarrow> split_host_port (host_port host p) = Ok (host, p)"
proof -
  assume ok: "host_ok host"
  have digits: "CHR '':'' \<notin> set (show_word p)" by (simp add: notin_show_nat)
  show ?thesis
  proof (cases "CHR '':'' \<in> set host")
    case True
    have "CHR '']'' \<notin> set host" using ok by (simp add: host_ok_def)
    then have "find_char (CHR '']'') (host @ CHR '']'' # '':'' @ show_word p) = Some (length host)"
      by (rule find_char_append)
    with True show ?thesis by (simp add: split_host_port_def host_port_def)
  next
    case False
    have "strip_prefix ''['' (host @ '':'' @ show_word p) = None"
      using ok by (cases host) (auto simp: host_ok_def starts_with_def split: if_splits)
    moreover have "rsplit_once (CHR '':'') (host @ CHR '':'' # show_word p) = Some (host, show_word p)"
      using digits by (simp add: rsplit_once_Some_iff)
    ultimately show ?thesis using False by (simp add: split_host_port_def host_port_def)
  qed
qed

text \<open>C25: \<open>split_host_port\<close> returns the host and the port that were written, bracketed or not.\<close>

theorem split_host_port_roundtrip:
  "host_ok host \<Longrightarrow> split_host_port (host_port host p) = Ok (host, p)"
  by (rule split_host_port_printed)

theorem split_host_port_roundtrip_witness:
  "split_host_port (host_port ''::1'' 10016) = Ok (''::1'', 10016)"
  by (rule split_host_port_roundtrip) (simp add: host_ok_def is_whitespace_def starts_with_def)

text \<open>A command as the words of a line, for commands whose parts can be written as words.\<close>

fun command_words :: "command \<Rightarrow> string list" where
  "command_words (OpenTcpServer p) = [''open'', ''server'', show_word p]"
| "command_words (OpenIpcServer q) = [''open'', ''ipc'', ''server'', q]"
| "command_words (OpenTcpClient lp host rp) = [''open'', ''client'', show_word lp, host_port host rp]"
| "command_words (OpenIpcClient q) = [''open'', ''ipc'', ''client'', q]"
| "command_words (Close tok) = [''close'', tok]"
| "command_words (Send tok bytes) = tok # map fmt_02X bytes"
| "command_words (Label tok name) = [''label'', tok, name]"
| "command_words Status = [''status'']"

fun typable :: "command \<Rightarrow> bool" where
  "typable (OpenIpcServer q) = plain_word q"
| "typable (OpenTcpClient lp host rp) = host_ok host"
| "typable (OpenIpcClient q) = plain_word q"
| "typable (Close tok) = plain_word tok"
| "typable (Send tok bytes) =
     (plain_word tok \<and> tok \<notin> set [''open'', ''close'', ''label'', ''status''] \<and> bytes \<noteq> [])"
| "typable (Label tok name) = (plain_word tok \<and> plain_word name)"
| "typable _ = True"

lemma int_char_not_whitespace: "int_char c \<Longrightarrow> \<not> is_whitespace c"
  by (auto simp: int_char_def is_ascii_digit_def is_whitespace_def)

lemma plain_show_word: "plain_word (show_word p)"
  using int_char_not_whitespace int_char_show_nat by (auto simp: plain_word_def list_all_iff)

lemma plain_fmt_02X: "plain_word (fmt_02X b)"
  using fmt_02X_hexdigits [of _ b] hexdigit_not_whitespace
  by (auto simp: plain_word_def list_all_iff) (simp add: fmt_02X_def)

lemma plain_host_port: "host_ok host \<Longrightarrow> plain_word (host_port host p)"
  using plain_show_word [of p]
  by (auto simp: plain_word_def host_ok_def host_port_def list_all_iff is_whitespace_def)

lemma plain_words: "typable c \<Longrightarrow> list_all plain_word (command_words c)"
  by (cases c)
     (auto simp: list_all_iff plain_show_word plain_fmt_02X plain_host_port,
      simp_all add: plain_word_def is_whitespace_def)

lemma parse_words_printed: "typable c \<Longrightarrow> parse_words (command_words c) = Ok (Some c)"
  by (cases c)
     (auto simp: parse_words_def parse_open_def parse_open_ipc_def parse_format_tokens
       split_host_port_printed numeral_3_eq_3)

text \<open>C24: Every command whose parts are words can be typed: the line printed from the command
  parses to the same command.\<close>

theorem command_line_roundtrip:
  "typable c \<Longrightarrow> parse_line (join_with (CHR '' '') (command_words c)) = Ok (Some c)"
proof -
  assume c: "typable c"
  have "command_words c \<noteq> []" by (cases c) simp_all
  with parse_line_join [OF this plain_words [OF c]] parse_words_printed [OF c] show ?thesis by simp
qed

theorem command_line_roundtrip_witness:
  "parse_line (join_with (CHR '' '') (command_words (OpenTcpClient 9000 ''host'' 80))) =
     Ok (Some (OpenTcpClient 9000 ''host'' 80))"
  by (rule command_line_roundtrip) (simp add: host_ok_def is_whitespace_def starts_with_def)

section \<open>Tokens\<close>

text \<open>The identifiers that some typed token can stand for.\<close>

fun addressable :: "connection_id \<Rightarrow> bool" where
  "addressable (IpcServer p) = starts_with ''/'' p"
| "addressable (AcceptedIpc p q d) = (starts_with ''/'' p \<and> d = None)"
| "addressable _ = True"

lemma parse_word_slash: "starts_with ''/'' s \<Longrightarrow> parse_word lo hi (s @ t) = None"
  by (rule parse_word_None [of "CHR ''/''"])
     (auto simp: starts_with_iff int_char_def is_ascii_digit_def)

lemma parse_word_has: "c \<in> set s \<Longrightarrow> \<not> int_char c \<Longrightarrow> parse_word lo hi s = None"
  by (rule parse_word_None)

lemma not_int_char [simp]:
  "\<not> int_char (CHR ''.'')" "\<not> int_char (CHR ''#'')" "\<not> int_char (CHR '':'')" "\<not> int_char (CHR ''/'')"
  "\<not> int_char (CHR ''i'')"
  by (simp_all add: int_char_def is_ascii_digit_def)

lemma strip_ipc_digit: "is_ascii_digit c \<Longrightarrow> strip_prefix ''ipc:'' (c # s) = None"
  by (auto simp: is_ascii_digit_def)

lemma parse_suffixed_slash: "starts_with ''/'' s \<Longrightarrow> parse_suffixed s = None"
proof -
  assume s: "starts_with ''/'' s"
  have "parse_u16 p = None" if "split_once (CHR ''#'') s = Some (left, right)"
    "split_once (CHR ''.'') left = Some (p, q)" for left right p q
  proof -
    from that have "s = (p @ CHR ''.'' # q) @ CHR ''#'' # right" by (simp add: split_once_Some_iff)
    with s have "p = [] \<or> starts_with ''/'' p" by (cases p) (auto simp: starts_with_iff)
    then show ?thesis using parse_word_slash [of p _ _ "[]"] by auto
  qed
  then show ?thesis by (auto simp: parse_suffixed_def split: option.splits)
qed

lemma strip_ipc_show_word: "strip_prefix ''ipc:'' (show_nat n @ s) = None"
  by (rule show_nat_Cons [of n]) (auto simp: is_ascii_digit_def)

lemma strip_ipc_slash: "starts_with ''/'' s \<Longrightarrow> strip_prefix ''ipc:'' s = None"
  by (auto simp: starts_with_iff)

lemma parse_u16_slash: "starts_with ''/'' s \<Longrightarrow> parse_u16 s = None"
  using parse_word_slash [of s 0 65535 "[]"] by simp

text \<open>The candidates of the text of each kind of identifier.\<close>

lemma parse_shown_tcp_server: "default_token_parser (show_word p) = [TcpServer p, TcpClient p]"
  using strip_ipc_show_word [of "unat p" "[]"] by (simp add: default_token_parser_def)

lemma parse_shown_ipc_client: "default_token_parser (''ipc:'' @ show_word n) = [IpcClient n]"
  unfolding default_token_parser_def by (simp only: strip_prefix_append bind.simps parse_u32_show option.case)

lemma parse_shown_accepted_tcp:
  "default_token_parser (show_id (AcceptedTcp p r d)) = [AcceptedTcp p r d]"
proof -
  let ?s = "show_id (AcceptedTcp p r d)"
  have 1: "strip_prefix ''ipc:'' ?s = None" by (simp add: strip_ipc_show_word)
  have 2: "parse_u16 ?s = None" by (rule parse_word_has [of "CHR ''.''"]) simp_all
  show ?thesis
  proof (cases d)
    case None
    have "rsplit_once (CHR ''.'') ?s = Some (show_word p, show_word r)"
      by (simp add: rsplit_once_Some_iff notin_show_nat None)
    moreover have "split_once (CHR ''#'') ?s = None" by (simp add: None notin_show_nat)
    then have "parse_suffixed ?s = None" unfolding parse_suffixed_def by (simp only: option.case)
    moreover have "\<not> starts_with ''/'' (show_word p)" "\<not> starts_with ''/'' ?s"
      by (rule show_nat_Cons [of "unat p"], auto simp: starts_with_iff)+
    ultimately show ?thesis using 1 2 None by (simp add: default_token_parser_def parse_dotted_def)
  next
    case (Some n)
    have "split_once (CHR ''#'') ?s = Some (show_word p @ ''.'' @ show_word r, show_word n)"
      by (simp add: split_once_Some_iff notin_show_nat Some)
    moreover have "split_once (CHR ''.'') (show_word p @ ''.'' @ show_word r) = Some (show_word p, show_word r)"
      by (simp add: split_once_Some_iff notin_show_nat)
    ultimately have "parse_suffixed ?s = Some (AcceptedTcp p r (Some n))"
      by (simp add: parse_suffixed_def)
    then show ?thesis using 1 2 Some by (simp add: default_token_parser_def)
  qed
qed

lemma parse_slash:
  assumes "starts_with ''/'' s"
  shows "default_token_parser s = parse_dotted s @ [IpcServer s]"
  using parse_u16_slash [OF assms] strip_ipc_slash [OF assms]
    parse_suffixed_slash [OF assms] assms
  by (simp add: default_token_parser_def)

lemma parse_shown_accepted_ipc:
  assumes "starts_with ''/'' p"
  shows "default_token_parser (show_id (AcceptedIpc p q None)) =
     [AcceptedIpc p q None, IpcServer (show_id (AcceptedIpc p q None))]"
proof -
  let ?s = "show_id (AcceptedIpc p q None)"
  have s: "starts_with ''/'' ?s" using assms by (auto simp: starts_with_iff)
  have "CHR ''.'' \<notin> set (show_i32 q)" using int_char_show_i32 not_int_char(1) by blast
  then have "rsplit_once (CHR ''.'') ?s = Some (p, show_i32 q)" by (simp add: rsplit_once_Some_iff)
  then have "parse_dotted ?s = [AcceptedIpc p q None]"
    using parse_u16_slash [OF assms] assms by (simp add: parse_dotted_def)
  with parse_slash [OF s] show ?thesis by simp
qed

lemma shown_among_candidates: "addressable i \<Longrightarrow> i \<in> set (default_token_parser (show_id i))"
proof (cases i)
  case (AcceptedTcp p q d)
  then show ?thesis by (simp only: parse_shown_accepted_tcp) simp
next
  case (AcceptedIpc p q d)
  assume "addressable i"
  with AcceptedIpc parse_shown_accepted_ipc [of p q] show ?thesis by simp
next
  case (IpcClient n)
  with parse_shown_ipc_client [of n] show ?thesis by simp
qed (simp_all add: parse_shown_tcp_server parse_slash)

lemma candidates_addressable: "i \<in> set (default_token_parser t) \<Longrightarrow> addressable i"
proof -
  have "addressable i" if "parse_suffixed t = Some i"
    using that by (auto simp: parse_suffixed_def split: option.splits)
  moreover have "addressable i" if "i \<in> set (parse_dotted t)"
  proof (cases "rsplit_once (CHR ''.'') t")
    case None
    with that show ?thesis by (simp add: parse_dotted_def)
  next
    case (Some lr)
    obtain left right where "lr = (left, right)" by (cases lr)
    with that Some show ?thesis
      by (cases "parse_u16 left"; cases "parse_u16 right"; cases "parse_i32 right";
          cases "starts_with ''/'' left") (auto simp: parse_dotted_def)
  qed
  moreover assume "i \<in> set (default_token_parser t)"
  ultimately show ?thesis
    by (auto simp: default_token_parser_def split: option.splits if_splits)
qed

text \<open>The text that an addressable identifier is displayed with is a token that leads to it.\<close>

lemma shown_token_leads_back:
  "addressable i \<Longrightarrow> i \<in> set (default_token_parser (show_id i))"
  by (rule shown_among_candidates)

text \<open>C26: Some token leads to an identifier exactly when it is addressable. In particular no token
  leads to an accepted IPC connection with a suffix, or to an IPC server with a relative path:
  such connections can be closed, labelled and written to only through a label, or not at all.\<close>

theorem token_exists_iff: "(\<exists>t. i \<in> set (default_token_parser t)) \<longleftrightarrow> addressable i"
  using shown_among_candidates candidates_addressable by blast

text \<open>C27: A token stands for at most two identifiers; when it stands for two, they are a server and
  a client on the same port, or a server and an accepted connection of the same text.\<close>

theorem token_ambiguity:
  "default_token_parser t = [] \<or> (\<exists>i. default_token_parser t = [i]) \<or>
   (\<exists>p. default_token_parser t = [TcpServer p, TcpClient p]) \<or>
   (\<exists>p q. default_token_parser t = [AcceptedIpc p q None, IpcServer t])"
proof (cases "starts_with ''/'' t")
  case True
  have "parse_u16 left = None" if "rsplit_once (CHR ''.'') t = Some (left, right)" for left right
  proof -
    from that True have "left = [] \<or> starts_with ''/'' left"
      by (cases left) (auto simp: rsplit_once_Some_iff starts_with_iff)
    then show ?thesis using parse_u16_slash [of left] by auto
  qed
  then show ?thesis
    by (auto simp: parse_slash [OF True] parse_dotted_def split: option.splits)
next
  case False
  have "\<not> starts_with ''/'' left" if "rsplit_once (CHR ''.'') t = Some (left, right)" for left right
    using that False by (auto simp: rsplit_once_Some_iff starts_with_iff)
  then show ?thesis
    by (auto simp: default_token_parser_def parse_dotted_def False split: option.splits)
qed

section \<open>Resolution\<close>

lemma resolve_unlabelled:
  "labels r t = None \<Longrightarrow> resolve_id r t parser = Ok i \<longleftrightarrow> find (registered r) (parser t) = Some i"
  by (cases "find (registered r) (parser t)") (simp_all add: resolve_id_def)

lemma parse_dotted_no_server: "i \<in> set (parse_dotted t) \<Longrightarrow> \<not> is_server i"
proof (cases "rsplit_once (CHR ''.'') t")
  case (Some lr)
  assume i: "i \<in> set (parse_dotted t)"
  obtain left right where "lr = (left, right)" by (cases lr)
  with i Some show ?thesis
    by (cases "parse_u16 left"; cases "parse_u16 right"; cases "parse_i32 right";
        cases "starts_with ''/'' left") (auto simp: parse_dotted_def)
qed (simp add: parse_dotted_def)

lemma find_append_single:
  "find P (xs @ [x]) = (if list_ex P xs then find P xs else if P x then Some x else None)"
  by (induction xs) auto

lemma not_found_elsewhere: "i \<notin> set xs \<Longrightarrow> find P xs \<noteq> Some i"
  by (auto simp: find_Some_iff)

text \<open>A registered connection that is tried before \<open>i\<close> for the text that \<open>i\<close> is displayed with: the
  server on the port of a client, or, for an IPC server, the accepted connection that its path reads as.\<close>

fun shadowed :: "'s registry \<Rightarrow> connection_id \<Rightarrow> bool" where
  "shadowed r (TcpClient p) = registered r (TcpServer p)"
| "shadowed r (IpcServer t) = list_ex (registered r) (parse_dotted t)"
| "shadowed r _ = False"

text \<open>C28: The displayed text of a registered connection resolves to that connection exactly when a
  token leads to it at all and no other connection is tried before it, unless the text has been given
  away as a label. So a TCP client with a server on its port, an accepted IPC connection with a suffix
  and an IPC server with a relative path are not reached by the name they are displayed with.\<close>

theorem resolve_shown:
  assumes "registered r i" and "labels r (show_id i) = None"
  shows "resolve_id r (show_id i) default_token_parser = Ok i \<longleftrightarrow> addressable i \<and> \<not> shadowed r i"
proof (cases "addressable i")
  case False
  then have "i \<notin> set (default_token_parser (show_id i))" using candidates_addressable by blast
  with False show ?thesis unfolding resolve_unlabelled [OF assms(2)] by (simp add: not_found_elsewhere)
next
  case True
  show ?thesis
  proof (cases i)
    case (IpcServer t)
    with True have "default_token_parser (show_id i) = parse_dotted t @ [i]" by (simp add: parse_slash)
    moreover have "i \<notin> set (parse_dotted t)" using parse_dotted_no_server [of i t] IpcServer by auto
    ultimately show ?thesis using True assms(1) IpcServer
      unfolding resolve_unlabelled [OF assms(2)] by (simp add: find_append_single not_found_elsewhere)
  next
    case (AcceptedTcp p q d)
    with assms(1) show ?thesis
      unfolding resolve_unlabelled [OF assms(2)] by (simp only: parse_shown_accepted_tcp) simp
  next
    case (AcceptedIpc p q d)
    with True assms(1) parse_shown_accepted_ipc [of p q] show ?thesis
      unfolding resolve_unlabelled [OF assms(2)] by simp
  next
    case (IpcClient n)
    with assms(1) parse_shown_ipc_client [of n] show ?thesis
      unfolding resolve_unlabelled [OF assms(2)] by simp
  next
    case (TcpServer p)
    with assms(1) show ?thesis
      unfolding resolve_unlabelled [OF assms(2)] by (simp add: parse_shown_tcp_server)
  next
    case (TcpClient p)
    with assms(1) show ?thesis
      unfolding resolve_unlabelled [OF assms(2)] by (simp add: parse_shown_tcp_server)
  qed
qed

text \<open>A client on port 9 is reached by its port until a server is opened on it.\<close>

definition client_9 :: "nat registry" where
  "client_9 = new_registry\<lparr>streams := [(TcpClient 9, \<lparr>sh_state = new_connected (TcpClient 9) None,
     sh_stream = 0, sh_read_task = 0, sh_parent = None\<rparr>)]\<rparr>"

definition server_9 :: server_handle where
  "server_9 = \<lparr>sv_state = new_connected (TcpServer 9) None, sv_accept_task = 1, sv_children = [],
     sv_ipc_path = None, sv_disambig_next = Map.empty, sv_base_no_suffix = Map.empty\<rparr>"

theorem resolve_shown_witness:
  "resolve_id client_9 (show_id (TcpClient 9)) default_token_parser = Ok (TcpClient 9) \<and>
   resolve_id (client_9\<lparr>servers := [(TcpServer 9, server_9)]\<rparr>) (show_id (TcpClient 9)) default_token_parser \<noteq>
     Ok (TcpClient 9)"
  using resolve_shown [of client_9 "TcpClient 9"]
    resolve_shown [of "client_9\<lparr>servers := [(TcpServer 9, server_9)]\<rparr>" "TcpClient 9"]
  by (simp add: client_9_def im_contains_def new_registry_def same_id_def)

text \<open>A port stands for the server on it when there is one, and otherwise for the client.\<close>

lemma resolve_port:
  "labels r (show_word p) = None \<Longrightarrow>
     resolve_id r (show_word p) default_token_parser =
       (if registered r (TcpServer p) then Ok (TcpServer p)
        else if registered r (TcpClient p) then Ok (TcpClient p)
        else Err (UnknownId (show_word p)))"
  by (simp add: resolve_id_def parse_shown_tcp_server)

end
