(* ===== verification/Status.thy ===== *)
theory Status
  imports Registry
begin

text \<open>
  The text of the \<open>status\<close> command: \<open>Registry::render_status\<close>, \<open>cmd_status\<close> and
  \<open>render_status_tag\<close> of \<open>domain/registry.rs\<close>. The lists of identifiers are sorted by their
  text (\<open>sort_by_key\<close> is a stable sort, as HOL's \<open>sort_key\<close>).
\<close>

fun render_status_tag :: "connection_status \<Rightarrow> string" where
  "render_status_tag Connected = ''CONNECTED''"
| "render_status_tag Closing = ''CLOSING''"
| "render_status_tag Closed = ''CLOSED''"

definition label_suffix :: "connection_state \<Rightarrow> string" where
  "label_suffix st = (case cs_label st of Some n \<Rightarrow> ''    label='' @ n | None \<Rightarrow> '''')"

definition client_ids :: "'s registry \<Rightarrow> connection_id list" where
  "client_ids r =
     sort_key show_id (map fst (filter (\<lambda>e. sh_parent (snd e) = None) (streams r)))"

text \<open>
  The line of one client. The code indexes the map (\<open>&self.streams[id]\<close>), which would panic on a
  missing key; the key comes from the map, and \<open>client_ids_present\<close> below shows it is there.
\<close>

definition client_line :: "'s registry \<Rightarrow> connection_id \<Rightarrow> string" where
  "client_line r i =
     (case im_get (streams r) i of
        None \<Rightarrow> ''''
      | Some h \<Rightarrow>
          let remote = (case cs_peer_info (sh_state h) of
                          Some (TcpSocket addr) \<Rightarrow> addr
                        | Some (IpcRemotePath p) \<Rightarrow> p
                        | Some (IpcPid _) \<Rightarrow> ''(ipc peer)''
                        | None \<Rightarrow> ''?'')
          in ''  '' @ show_id i @ '' -> '' @ remote @ ''    ['' @
             render_status_tag (cs_status (sh_state h)) @ '']'' @ label_suffix (sh_state h) @ ''\<newline>'')"

definition server_ids :: "'s registry \<Rightarrow> connection_id list" where
  "server_ids r = sort_key show_id (im_keys (servers r))"

definition child_line :: "'s registry \<Rightarrow> connection_id \<Rightarrow> string" where
  "child_line r c =
     (case im_get (streams r) c of
        None \<Rightarrow> ''''
      | Some h \<Rightarrow>
          let peer = (case cs_peer_info (sh_state h) of Some p \<Rightarrow> render_peer p | None \<Rightarrow> ''?'')
          in ''    '' @ show_id c @ ''    peer='' @ peer @ ''    ['' @
             render_status_tag (cs_status (sh_state h)) @ '']'' @ label_suffix (sh_state h) @ ''\<newline>'')"

definition server_block :: "'s registry \<Rightarrow> connection_id \<Rightarrow> string" where
  "server_block r s =
     (case im_get (servers r) s of
        None \<Rightarrow> ''''
      | Some srv \<Rightarrow>
          ''  '' @ show_id s @ ''\<newline>'' @
          concat (map (child_line r) (sort_key show_id (sv_children srv))))"

definition render_status :: "'s registry \<Rightarrow> string" where
  "render_status r =
     ''CLIENTS\<newline>'' @
     (if client_ids r = [] then ''  (none)\<newline>'' else concat (map (client_line r) (client_ids r))) @
     ''\<newline>SERVERS\<newline>'' @
     (if server_ids r = [] then ''  (none)\<newline>'' else concat (map (server_block r) (server_ids r)))"

definition cmd_status :: "'s registry \<Rightarrow> command_outcome" where
  "cmd_status r = outcome_ok (render_status r)"

lemma client_ids_present: "i \<in> set (client_ids r) \<Longrightarrow> im_get (streams r) i \<noteq> None"
  by (auto simp: client_ids_def im_get_None_iff im_dom_def)

lemma server_ids_present: "i \<in> set (server_ids r) \<Longrightarrow> im_get (servers r) i \<noteq> None"
  by (auto simp: server_ids_def im_get_None_iff im_dom_def)

end
