(* ===== verification/Runtime.thy ===== *)
theory Runtime
  imports Status Token_Parser
begin

text \<open>
  The registry task and the tasks around it (\<open>repl/runtime.rs\<close>): the command, event and accept
  handlers, the main loop, and the bodies of the read and accept tasks. One definition per arm of
  \<open>handle_command\<close>.

  The transports are traits (\<open>Connector\<close> and \<open>Listener\<close> of \<open>domain/transport.rs\<close>): what they
  answer to the one call a handler makes is the argument \<open>deps\<close> (for \<open>bind\<close> with the files whose
  removal the listener has asked for, whether it then binds or not), with the handle that
  \<open>tokio::spawn\<close> returns for the one task it spawns.
\<close>

section \<open>Dependencies\<close>

record 's deps =
  dep_connect :: "endpoint \<Rightarrow> domain_error + 's"
  dep_bind :: "server_endpoint \<Rightarrow> (domain_error + accept_loop) \<times> path list"
  dep_task :: task
  dep_io :: "'s stream_ops"

section \<open>Read and accept tasks\<close>

text \<open>What a read yields: \<open>Ok(n)\<close> with the \<open>n\<close> bytes read (none at end of file), or an error.\<close>

datatype read_result = ReadOk "u8 list" | ReadErr string

text \<open>
  One turn of the read loop: what it sends, and whether it goes on. The identifier is the one
  the task captured when it was spawned.
\<close>

fun read_turn :: "connection_id \<Rightarrow> read_result \<Rightarrow> 's registry_input list \<times> bool" where
  "read_turn i (ReadOk []) = ([Event (EvClosed i)], False)"
| "read_turn i (ReadOk (b # bs)) = ([Event (Received i (b # bs))], True)"
| "read_turn i (ReadErr e) = ([Event (EvError i e), Event (EvClosed i)], False)"

fun read_loop :: "connection_id \<Rightarrow> read_result list \<Rightarrow> 's registry_input list" where
  "read_loop i [] = []"
| "read_loop i (x # xs) =
     (let (out, continue) = read_turn i x in out @ (if continue then read_loop i xs else []))"

text \<open>
  The adapter \<open>WriterHalf\<close>: the write half of a split stream as a stream of its own. The poll
  functions of the half are tokio's, the parameters \<open>write_polls\<close>. A poll returns its answer and the
  half afterwards; a read has an end of file at once, and leaves the buffer as it is.
\<close>

datatype 'r poll = Ready 'r | Pending

record 'w write_polls =
  half_write :: "'w \<Rightarrow> u8 list \<Rightarrow> (io_error + nat) poll \<times> 'w"
  half_flush :: "'w \<Rightarrow> (io_error + unit) poll \<times> 'w"
  half_shutdown :: "'w \<Rightarrow> (io_error + unit) poll \<times> 'w"

record 'w writer_half =
  writer :: 'w

definition wh_poll_read ::
  "'w writer_half \<Rightarrow> u8 list \<Rightarrow> (io_error + unit) poll \<times> u8 list \<times> 'w writer_half" where
  "wh_poll_read h buf = (Ready (Ok ()), buf, h)"

definition wh_poll_write ::
  "'w write_polls \<Rightarrow> 'w writer_half \<Rightarrow> u8 list \<Rightarrow> (io_error + nat) poll \<times> 'w writer_half" where
  "wh_poll_write ops h buf = (let (res, w) = half_write ops (writer h) buf in (res, h\<lparr>writer := w\<rparr>))"

definition wh_poll_flush :: "'w write_polls \<Rightarrow> 'w writer_half \<Rightarrow> (io_error + unit) poll \<times> 'w writer_half" where
  "wh_poll_flush ops h = (let (res, w) = half_flush ops (writer h) in (res, h\<lparr>writer := w\<rparr>))"

definition wh_poll_shutdown :: "'w write_polls \<Rightarrow> 'w writer_half \<Rightarrow> (io_error + unit) poll \<times> 'w writer_half" where
  "wh_poll_shutdown ops h = (let (res, w) = half_shutdown ops (writer h) in (res, h\<lparr>writer := w\<rparr>))"

definition spawn_stream ::
  "task \<Rightarrow> connection_id \<Rightarrow> 's \<Rightarrow> peer_info option \<Rightarrow> connection_id option
     \<Rightarrow> 's stream_handle \<times> 's effects" where
  "spawn_stream t i s peer par =
     (\<lparr>sh_state = new_connected i peer, sh_stream = s, sh_read_task = t, sh_parent = par\<rparr>,
      [SpawnRead t i])"

definition parse_remote_port :: "string \<Rightarrow> u16 option" where
  "parse_remote_port s =
     (case rfind_char (CHR '':'') s of
        None \<Rightarrow> None
      | Some colon \<Rightarrow> parse_u16 (drop (colon + 1) s))"

text \<open>One turn of the accept loop of a TCP and of an IPC server.\<close>

fun accept_tcp_turn ::
  "u16 \<Rightarrow> connection_id \<Rightarrow> domain_error + 's accepted_stream \<Rightarrow> 's registry_input list" where
  "accept_tcp_turn p parent_id (Inr a) =
     (case (case as_peer_info a of
              TcpSocket addr \<Rightarrow> parse_remote_port addr
            | IpcPid _ \<Rightarrow> None
            | IpcRemotePath _ \<Rightarrow> None) of
        Some remote \<Rightarrow>
          [Accepted parent_id (AcceptedTcp p remote None) (as_peer_info a) (as_stream a)]
      | None \<Rightarrow> [])"
| "accept_tcp_turn p parent_id (Inl e) =
     [Event (EvError parent_id (''accept failed: '' @ show_domain_error e))]"

fun accept_ipc_turn ::
  "path \<Rightarrow> connection_id \<Rightarrow> domain_error + 's accepted_stream \<Rightarrow> 's registry_input list" where
  "accept_ipc_turn p parent_id (Inr a) =
     (case as_peer_info a of
        IpcPid pd \<Rightarrow>
          [Accepted parent_id (AcceptedIpc p pd None) (as_peer_info a) (as_stream a)]
      | TcpSocket _ \<Rightarrow> []
      | IpcRemotePath _ \<Rightarrow> [])"
| "accept_ipc_turn p parent_id (Inl e) =
     [Event (EvError parent_id (''accept failed: '' @ show_domain_error e))]"

section \<open>Commands\<close>

type_synonym 's command_result = "command_outcome \<times> 's registry \<times> 's effects"

definition fail_with :: "domain_error \<Rightarrow> 's registry \<Rightarrow> 's command_result" where
  "fail_with e r = (outcome_err (show_domain_error e), r, [])"

definition new_server :: "connection_id \<Rightarrow> task \<Rightarrow> path option \<Rightarrow> server_handle" where
  "new_server i t p =
     \<lparr>sv_state = new_connected i None, sv_accept_task = t, sv_children = [], sv_ipc_path = p,
      sv_disambig_next = Map.empty, sv_base_no_suffix = Map.empty\<rparr>"

text \<open>\<open>HashMap::insert\<close> into \<open>servers\<close>, and the two lines that report the new listener.\<close>

definition start_server :: "connection_id \<Rightarrow> task \<Rightarrow> path option \<Rightarrow> accept_loop \<Rightarrow> 's registry \<Rightarrow> 's command_result"
  where
  "start_server i t p al r =
     (outcome_ok (''listening on '' @ show_id i),
      r\<lparr>servers := im_insert i (new_server i t p) (servers r)\<rparr>,
      [SpawnAccept t i al, Display (''['' @ show_id i @ ''] listening'')])"

text \<open>The files that a listener has removed before it answered are gone in either case.\<close>

definition removing :: "path list \<Rightarrow> 's command_result \<Rightarrow> 's command_result" where
  "removing files res = (let (out, r, e) = res in (out, r, map RemoveFile files @ e))"

definition open_tcp_server :: "'s deps \<Rightarrow> u16 \<Rightarrow> 's registry \<Rightarrow> 's command_result" where
  "open_tcp_server d p r =
     (let i = TcpServer p in
      if im_contains (servers r) i \<or> im_contains (streams r) i
      then fail_with (IdAlreadyInUse (show_word p)) r
      else (let b = dep_bind d (TcpServerEndpoint p)
            in removing (snd b)
                 (case fst b of
                    Inr al \<Rightarrow> start_server i (dep_task d) None al r
                  | Inl e \<Rightarrow> fail_with e r)))"

definition open_ipc_server :: "'s deps \<Rightarrow> path \<Rightarrow> 's registry \<Rightarrow> 's command_result" where
  "open_ipc_server d p r =
     (let i = IpcServer p in
      if im_contains (servers r) i
      then fail_with (IdAlreadyInUse p) r
      else (let b = dep_bind d (IpcServerEndpoint p)
            in removing (snd b)
                 (case fst b of
                    Inr al \<Rightarrow> start_server i (dep_task d) (Some p) al r
                  | Inl e \<Rightarrow> fail_with e r)))"

definition open_tcp_client :: "'s deps \<Rightarrow> u16 \<Rightarrow> string \<Rightarrow> u16 \<Rightarrow> 's registry \<Rightarrow> 's command_result" where
  "open_tcp_client d lport host rport r =
     (let i = TcpClient lport in
      if im_contains (streams r) i \<or> im_contains (servers r) i
      then fail_with (IdAlreadyInUse (show_word lport)) r
      else (case dep_connect d (TcpEndpoint lport host rport) of
              Inr s \<Rightarrow>
                let addr = host @ '':'' @ show_word rport;
                    (h, e1) = spawn_stream (dep_task d) i s (Some (TcpSocket addr)) None;
                    (r1, e2) = insert_stream h r
                in (outcome_ok (''client '' @ show_id i @ '' connected''), r1,
                    e1 @ e2 @ [Display (''['' @ show_id i @ ''] connected to '' @ addr)])
            | Inl e \<Rightarrow> fail_with e r))"

definition open_ipc_client :: "'s deps \<Rightarrow> path \<Rightarrow> 's registry \<Rightarrow> 's command_result" where
  "open_ipc_client d p r0 =
     (let (n, r) = alloc_ipc_client_seq r0;
          i = IpcClient n
      in case dep_connect d (IpcEndpoint p) of
           Inr s \<Rightarrow>
             let (h, e1) = spawn_stream (dep_task d) i s (Some (IpcRemotePath p)) None;
                 (r1, e2) = insert_stream h r
             in (outcome_ok (''ipc client '' @ show_id i @ '' connected to '' @ p), r1,
                 e1 @ e2 @ [Display (''['' @ show_id i @ ''] connected to '' @ p)])
         | Inl e \<Rightarrow> fail_with e r)"

definition close_connection :: "string \<Rightarrow> 's registry \<Rightarrow> 's command_result" where
  "close_connection token r =
     (case resolve_id r token default_token_parser of
        Inl e \<Rightarrow> fail_with e r
      | Inr i \<Rightarrow>
          if im_contains (servers r) i
          then let (r1, e) = drop_server i r
               in (outcome_ok (''closed server '' @ show_id i @ '' and all its children''), r1,
                   e @ [Display (''['' @ show_id i @ ''] CLOSED'')])
          else if im_contains (streams r) i
          then let (r1, e) = drop_stream i r
               in (outcome_ok (''closed '' @ show_id i), r1,
                   e @ [Display (''['' @ show_id i @ ''] CLOSED'')])
          else fail_with (UnknownId token) r)"

definition send_command :: "'s deps \<Rightarrow> string \<Rightarrow> u8 list \<Rightarrow> 's registry \<Rightarrow> 's command_result" where
  "send_command d token bytes r =
     (case resolve_id r token default_token_parser of
        Inl e \<Rightarrow> fail_with e r
      | Inr i \<Rightarrow>
          (case send_bytes (dep_io d) i bytes r of
             (Inr _, r1, e) \<Rightarrow>
               (outcome_ok (''sent '' @ show_nat (length bytes) @ '' bytes to '' @ show_id i), r1, e)
           | (Inl err, r1, e) \<Rightarrow> (outcome_err (show_domain_error err), r1, e)))"

definition label_command :: "string \<Rightarrow> string \<Rightarrow> 's registry \<Rightarrow> 's command_result" where
  "label_command token name r =
     (case resolve_id r token default_token_parser of
        Inl e \<Rightarrow> fail_with e r
      | Inr i \<Rightarrow> let (out, r1) = cmd_label i name r in (out, r1, []))"

fun handle_command :: "'s deps \<Rightarrow> command \<Rightarrow> 's registry \<Rightarrow> 's command_result" where
  "handle_command d (OpenTcpServer p) r = open_tcp_server d p r"
| "handle_command d (OpenIpcServer p) r = open_ipc_server d p r"
| "handle_command d (OpenTcpClient lp host rp) r = open_tcp_client d lp host rp r"
| "handle_command d (OpenIpcClient p) r = open_ipc_client d p r"
| "handle_command d (Close token) r = close_connection token r"
| "handle_command d (Send token bytes) r = send_command d token bytes r"
| "handle_command d (Label token name) r = label_command token name r"
| "handle_command d Status r = (cmd_status r, r, [])"

section \<open>Events and accepted connections\<close>

fun handle_event :: "net_event \<Rightarrow> 's registry \<Rightarrow> 's registry \<times> 's effects" where
  "handle_event (Received i bytes) r = (r, on_received i bytes r)"
| "handle_event (EvClosed i) r = on_closed_event i r"
| "handle_event (EvError i msg) r = (r, on_error_event i msg r)"
| "handle_event (Renamed _ _) r = (r, [])"

text \<open>The identifier of an accepted connection, by the shapes of parent and tentative child.\<close>

datatype 's final_id = Mismatch | Allocated "'s allocation"

fun allocate_final :: "connection_id \<Rightarrow> connection_id \<Rightarrow> 's registry \<Rightarrow> 's final_id" where
  "allocate_final (TcpServer p) (AcceptedTcp _ remote _) r =
     Allocated (allocate_accepted_tcp_id p remote r)"
| "allocate_final (IpcServer p) (AcceptedIpc _ pd _) r =
     Allocated (allocate_accepted_ipc_id p pd r)"
| "allocate_final _ _ r = Mismatch"

definition rename_line :: "net_event option \<Rightarrow> 's effects" where
  "rename_line ev =
     (case ev of
        Some (Renamed new old) \<Rightarrow> [Display (''['' @ show_id new @ ''] RENAMED '' @ show_id old)]
      | _ \<Rightarrow> [])"

definition handle_accepted ::
  "'s deps \<Rightarrow> connection_id \<Rightarrow> connection_id \<Rightarrow> peer_info \<Rightarrow> 's \<Rightarrow> 's registry
     \<Rightarrow> ('s registry \<times> 's effects) option" where
  "handle_accepted d par tentative peer s r =
     (case allocate_final par tentative r of
        Mismatch \<Rightarrow>
          Some (r, [Display (''['' @ show_id par @ ''] ERROR internal: mismatched accepted id shape''),
                    DropStream s])
      | Allocated None \<Rightarrow> None
      | Allocated (Some (final, ev, r1, e1)) \<Rightarrow>
          let (h, e2) = spawn_stream (dep_task d) final s (Some peer) (Some par);
              (r2, e3) = insert_stream h r1
          in Some (r2, e1 @ rename_line ev @ e2 @ e3 @
                       [Display (''['' @ show_id final @ ''] ACCEPT peer='' @ render_peer peer)]))"

section \<open>The main loop\<close>

text \<open>
  One input. \<open>None\<close> is a panic of the task; the flag says whether the loop goes on.
\<close>

fun handle_input :: "'s deps \<Rightarrow> 's registry_input \<Rightarrow> 's registry \<Rightarrow> ('s registry \<times> 's effects \<times> bool) option" where
  "handle_input d Shutdown r = Some (r, [LogInfo ''shutdown requested''], False)"
| "handle_input d (Command c reply_open) r =
     (let (out, r1, e) = handle_command d c r
      in Some (r1, e @ [if reply_open then Reply out
                        else LogWarn ''command reply channel closed before response''], True))"
| "handle_input d (Event ev) r = (let (r1, e) = handle_event ev r in Some (r1, e, True))"
| "handle_input d (Accepted par tentative peer s) r =
     map_option (\<lambda>(r1, e). (r1, e, True)) (handle_accepted d par tentative peer s r)"

text \<open>The loop over the inputs that arrive until the channel closes or \<open>Shutdown\<close> is taken.\<close>

fun input_loop :: "('s deps \<times> 's registry_input) list \<Rightarrow> 's registry \<Rightarrow> ('s registry \<times> 's effects) option" where
  "input_loop [] r = Some (r, [])"
| "input_loop ((d, x) # xs) r =
     (case handle_input d x r of
        None \<Rightarrow> None
      | Some (r1, e, False) \<Rightarrow> Some (r1, e)
      | Some (r1, e, True) \<Rightarrow> map_option (\<lambda>(r2, e2). (r2, e @ e2)) (input_loop xs r1))"

definition run_registry :: "('s deps \<times> 's registry_input) list \<Rightarrow> ('s registry \<times> 's effects) option" where
  "run_registry xs =
     (case input_loop xs new_registry of
        None \<Rightarrow> None
      | Some (r, e) \<Rightarrow>
          let (r1, e1) = shutdown r
          in Some (r1, e @ e1 @ [LogInfo ''registry shutdown complete'']))"

end
