(* ===== verification/Registry_Views.thy ===== *)
theory Registry_Views
  imports Registry
begin

text \<open>
  What each registry operation does to the three views of the registry: the stream at an
  identifier, the server at an identifier, and the label map. Later proofs use these facts
  (collection \<open>views\<close>) and never unfold an operation.
\<close>

abbreviation sget :: "'s registry \<Rightarrow> connection_id \<Rightarrow> 's stream_handle option" where
  "sget r i \<equiv> im_get (streams r) i"

abbreviation vget :: "'s registry \<Rightarrow> connection_id \<Rightarrow> server_handle option" where
  "vget r p \<equiv> im_get (servers r) p"

named_theorems views \<open>the views of the registry after an operation\<close>

definition has_parent :: "connection_id \<Rightarrow> 's stream_handle \<Rightarrow> bool" where
  "has_parent p h \<longleftrightarrow> (\<exists>q. sh_parent h = Some q \<and> same_id q p)"

definition parent_matches :: "connection_id option \<Rightarrow> connection_id \<Rightarrow> bool" where
  "parent_matches o_p p \<longleftrightarrow> (\<exists>q. o_p = Some q \<and> same_id q p)"

lemma has_parent_alt: "has_parent p h = parent_matches (sh_parent h) p"
  by (simp add: has_parent_def parent_matches_def)

definition map_children :: "(idset \<Rightarrow> idset) \<Rightarrow> server_handle \<Rightarrow> server_handle" where
  "map_children f s = s\<lparr>sv_children := f (sv_children s)\<rparr>"

lemma map_children_simps [simp]:
  "sv_children (map_children f s) = f (sv_children s)"
  "sv_state (map_children f s) = sv_state s"
  "sv_accept_task (map_children f s) = sv_accept_task s"
  "sv_ipc_path (map_children f s) = sv_ipc_path s"
  "sv_disambig_next (map_children f s) = sv_disambig_next s"
  "sv_base_no_suffix (map_children f s) = sv_base_no_suffix s"
  by (simp_all add: map_children_def)

section \<open>update\_children and forget\_label\<close>

lemma update_children_views [views, simp]:
  "streams (update_children f op r) = streams r"
  "labels (update_children f op r) = labels r"
  "next_ipc_client_seq (update_children f op r) = next_ipc_client_seq r"
  "im_dom (servers (update_children f op r)) = im_dom (servers r)"
  "im_distinct (servers (update_children f op r)) = im_distinct (servers r)"
  "vget (update_children f op r) p =
     (if parent_matches op p then map_option (map_children f) (vget r p) else vget r p)"
  by (auto simp: update_children_def parent_matches_def im_get_update map_children_def [abs_def]
      split: option.split)

lemma update_children_absent: "(\<And>p. op = Some p \<Longrightarrow> vget r p = None) \<Longrightarrow> update_children f op r = r"
  by (cases op) (simp_all add: update_children_def im_update_absent)

lemma forget_label_views [views, simp]:
  "streams (forget_label l r) = streams r"
  "servers (forget_label l r) = servers r"
  "next_ipc_client_seq (forget_label l r) = next_ipc_client_seq r"
  "labels (forget_label l r) n = (if l = Some n then None else labels r n)"
  by (auto simp: forget_label_def split: option.split)

section \<open>Labels in force\<close>

lemma stream_label_eq: "stream_label r i = Option.bind (sget r i) (\<lambda>h. cs_label (sh_state h))"
  by (simp add: stream_label_def)

lemma current_label_eq:
  "current_label r i =
     (case sget r i of Some h \<Rightarrow> cs_label (sh_state h)
      | None \<Rightarrow> (case vget r i of Some s \<Rightarrow> cs_label (sv_state s) | None \<Rightarrow> None))"
  by (auto simp: current_label_def im_contains_def stream_label_def server_label_def split: option.split)

lemma current_label_same: "same_id i j \<Longrightarrow> current_label r i = current_label r j"
  by (simp add: current_label_eq im_get_same [of i j] split: option.split)

section \<open>insert\_stream\<close>

lemma insert_stream_views [views]:
  assumes "insert_stream h r = (r', e)"
  shows "sget r' j = (if same_id (cs_id (sh_state h)) j then Some h else sget r j)"
    and "vget r' p =
      (if has_parent p h then map_option (map_children (is_insert (cs_id (sh_state h)))) (vget r p)
       else vget r p)"
    and "labels r' = labels r"
    and "next_ipc_client_seq r' = next_ipc_client_seq r"
    and "im_distinct (streams r) \<Longrightarrow> im_distinct (streams r')"
    and "im_distinct (servers r') = im_distinct (servers r)"
    and "e = displaced (sget r (cs_id (sh_state h)))"
  using assms by (auto simp: insert_stream_def Let_def im_get_insert im_distinct_insert has_parent_alt)

section \<open>drop\_stream and drop\_streams\<close>

lemma drop_stream_absent: "sget r i = None \<Longrightarrow> drop_stream i r = (r, [])"
  by (simp add: drop_stream_def)

lemma drop_stream_views [views]:
  assumes "drop_stream i r = (r', e)"
  shows "sget r' j = (if same_id i j then None else sget r j)"
    and "vget r' p =
      (if \<exists>h. sget r i = Some h \<and> has_parent p h
       then map_option (map_children (is_remove i)) (vget r p) else vget r p)"
    and "labels r' l = (if stream_label r i = Some l then None else labels r l)"
    and "next_ipc_client_seq r' = next_ipc_client_seq r"
    and "im_distinct (streams r) \<Longrightarrow> im_distinct (streams r')"
    and "im_distinct (servers r') = im_distinct (servers r)"
    and "im_dom (servers r') = im_dom (servers r)"
    and "e = (case sget r i of None \<Rightarrow> [] | Some h \<Rightarrow> [AbortTask (sh_read_task h), DropStream (sh_stream h)])"
  using assms im_get_same [of i j "streams r"]
  by (auto simp: drop_stream_def Let_def im_get_remove im_distinct_remove has_parent_alt
      stream_label_def on_closed_def split: option.splits if_splits)

lemma stream_label_drop_stream:
  "drop_stream i r = (r', e) \<Longrightarrow> stream_label r' j = (if same_id i j then None else stream_label r j)"
  by (simp add: stream_label_def drop_stream_views)

lemma drop_streams_views [views]:
  assumes "drop_streams cs r = (r', e)"
  shows "sget r' j = (if \<exists>c\<in>set cs. same_id c j then None else sget r j)"
    and "labels r' l = (if \<exists>c\<in>set cs. stream_label r c = Some l then None else labels r l)"
    and "next_ipc_client_seq r' = next_ipc_client_seq r"
    and "im_distinct (streams r) \<Longrightarrow> im_distinct (streams r')"
    and "im_distinct (servers r') = im_distinct (servers r)"
    and "im_dom (servers r') = im_dom (servers r)"
  using assms
proof (atomize (full), induction cs arbitrary: r e)
  case Nil
  then show ?case by simp
next
  case (Cons c cs)
  obtain r1 e1 where 1: "drop_stream c r = (r1, e1)" by (cases "drop_stream c r")
  obtain r2 e2 where 2: "drop_streams cs r1 = (r2, e2)" by (cases "drop_streams cs r1")
  from Cons.prems 1 2 have [simp]: "r' = r2" by simp
  have "stream_label r1 d = Some l \<longleftrightarrow> stream_label r d = Some l"
    if "stream_label r c \<noteq> Some l" for d
    using that im_get_same [of c d "streams r"]
    by (auto simp: stream_label_drop_stream [OF 1] stream_label_def [of r])
  then have "(if \<exists>d\<in>set cs. stream_label r1 d = Some l then None else labels r1 l) =
      (if \<exists>d\<in>set (c # cs). stream_label r d = Some l then None else labels r l)"
    by (auto simp: drop_stream_views(3) [OF 1])
  with Cons.IH [of r1 e2] 2 show ?case
    by (simp add: drop_stream_views(1,4-7) [OF 1])
qed

end
