(* ===== verification/Invariant.thy ===== *)
theory Invariant
  imports Registry_Views
begin

text \<open>
  The registry's invariant, and its preservation by each operation of the registry.

  \<^item> \<open>wf_core\<close>: the maps have distinct keys, entries carry the identifier they are stored under,
    servers and streams are told apart by their identifiers, everything registered is
    \<open>Connected\<close>, and \<open>children\<close> of a server are exactly the streams whose \<open>parent\<close> it is.
  \<^item> \<open>wf_slots\<close>: an accepted stream has its server registered, and the server's two
    disambiguation tables know its suffix; other streams have no parent.
  \<^item> \<open>wf_bases\<close>: a base without suffix and a suffix counter never exist together.
  \<^item> \<open>wf_labels\<close>: a label in force is in the label map, and the map leads to its carrier, or to
    the identifier that the carrier had before it was renamed.
\<close>

section \<open>Slots: parent, base key and suffix of an accepted identifier\<close>

fun slot :: "connection_id \<Rightarrow> (connection_id \<times> string \<times> u32 option) option" where
  "slot (AcceptedTcp p q d) = Some (TcpServer p, show_word p @ ''.'' @ show_word q, d)"
| "slot (AcceptedIpc p q d) = Some (IpcServer p, p @ ''.'' @ show_i32 q, d)"
| "slot _ = None"

fun with_suffix :: "u32 option \<Rightarrow> connection_id \<Rightarrow> connection_id" where
  "with_suffix d (AcceptedTcp p q _) = AcceptedTcp p q d"
| "with_suffix d (AcceptedIpc p q _) = AcceptedIpc p q d"
| "with_suffix d i = i"

fun raw_path :: "connection_id \<Rightarrow> path option" where
  "raw_path (IpcServer p) = Some p"
| "raw_path _ = None"

lemma slot_inject: "slot a = Some (p, b, d) \<Longrightarrow> slot a' = Some (p, b, d) \<Longrightarrow> a = a'"
  by (cases a; cases a') auto

lemma slot_with_suffix: "slot a = Some (p, b, d) \<Longrightarrow> slot (with_suffix d' a) = Some (p, b, d')"
  by (cases a) auto

lemma with_suffix_id: "slot a = Some (p, b, d) \<Longrightarrow> with_suffix d a = a"
  by (cases a) auto

lemma with_suffix_idem [simp]: "with_suffix d (with_suffix e a) = with_suffix d a"
  by (cases a) auto

lemma same_id_with_suffix: "same_id a a' \<Longrightarrow> same_id (with_suffix d a) (with_suffix d a')"
  by (cases a; cases a') (auto simp: same_id_def)

lemma slot_is_server: "slot a = Some (p, b, d) \<Longrightarrow> is_server p \<and> \<not> is_server a"
  by (cases a) auto

lemma same_slot:
  assumes "same_id a a'" and "slot a = Some (p, b, d)"
  obtains p' b' where "slot a' = Some (p', b', d)" and "same_id p p'"
    and "raw_path p = raw_path p' \<longrightarrow> a = a'"
  using assms by (cases a; cases a') (auto simp: same_id_def)

lemma same_id_raw_path: "same_id p p' \<Longrightarrow> is_server p \<Longrightarrow> raw_path p = raw_path p' \<Longrightarrow> p = p'"
  by (cases p; cases p') (auto simp: same_id_def)

lemma same_id_suffix: "slot a = Some (p, b, d) \<Longrightarrow> slot a' = Some (p', b', d') \<Longrightarrow> same_id a a' \<Longrightarrow> d = d'"
  by (cases a; cases a') (auto simp: same_id_def)

section \<open>The invariant\<close>

definition stream_entry_ok :: "connection_id \<Rightarrow> 's stream_handle \<Rightarrow> bool" where
  "stream_entry_ok i h \<longleftrightarrow>
     same_id (cs_id (sh_state h)) i \<and> \<not> is_server i \<and> cs_status (sh_state h) = Connected"

definition server_entry_ok :: "connection_id \<Rightarrow> server_handle \<Rightarrow> bool" where
  "server_entry_ok p s \<longleftrightarrow>
     same_id (cs_id (sv_state s)) p \<and> is_server p \<and> cs_status (sv_state s) = Connected \<and>
     sv_ipc_path s = raw_path (cs_id (sv_state s))"

definition linked :: "'s registry \<Rightarrow> bool" where
  "linked r \<longleftrightarrow>
     (\<forall>p s c. vget r p = Some s \<longrightarrow>
        (is_member c (sv_children s) \<longleftrightarrow> (\<exists>h. sget r c = Some h \<and> has_parent p h)))"

definition wf_core :: "'s registry \<Rightarrow> bool" where
  "wf_core r \<longleftrightarrow>
     im_distinct (streams r) \<and> im_distinct (servers r) \<and>
     (\<forall>i h. sget r i = Some h \<longrightarrow> stream_entry_ok i h) \<and>
     (\<forall>p s. vget r p = Some s \<longrightarrow> server_entry_ok p s) \<and>
     linked r"

definition suffix_known :: "server_handle \<Rightarrow> string \<Rightarrow> connection_id \<Rightarrow> u32 option \<Rightarrow> bool" where
  "suffix_known s b a d \<longleftrightarrow>
     (case d of None \<Rightarrow> sv_base_no_suffix s b = Some a | Some n \<Rightarrow> sv_disambig_next s b \<noteq> None)"

definition slot_ok :: "'s registry \<Rightarrow> connection_id \<Rightarrow> connection_id option \<Rightarrow> bool" where
  "slot_ok r a par \<longleftrightarrow>
     (case slot a of
        None \<Rightarrow> par = None
      | Some (p, b, d) \<Rightarrow>
          parent_matches par p \<and>
          (\<exists>s. vget r p = Some s \<and> sv_ipc_path s = raw_path p \<and> suffix_known s b a d))"

definition wf_slots :: "'s registry \<Rightarrow> bool" where
  "wf_slots r \<longleftrightarrow> (\<forall>i h. sget r i = Some h \<longrightarrow> slot_ok r (cs_id (sh_state h)) (sh_parent h))"

definition base_ok :: "connection_id \<Rightarrow> server_handle \<Rightarrow> bool" where
  "base_ok p s \<longleftrightarrow>
     (\<forall>b a. sv_base_no_suffix s b = Some a \<longrightarrow>
        sv_disambig_next s b = None \<and>
        (\<exists>q. slot a = Some (q, b, None) \<and> same_id q p \<and> raw_path q = sv_ipc_path s))"

definition wf_bases :: "'s registry \<Rightarrow> bool" where
  "wf_bases r \<longleftrightarrow> (\<forall>p s. vget r p = Some s \<longrightarrow> base_ok p s)"

definition renamed_from :: "connection_id \<Rightarrow> connection_id \<Rightarrow> bool" where
  "renamed_from x j \<longleftrightarrow> (\<exists>p b. slot x = Some (p, b, None)) \<and> same_id j (with_suffix (Some 1) x)"

definition wf_labels :: "'s registry \<Rightarrow> bool" where
  "wf_labels r \<longleftrightarrow>
     (\<forall>j l. current_label r j = Some l \<longrightarrow>
        (\<exists>x. labels r l = Some x \<and> (same_id x j \<or> renamed_from x j)))"

definition wf_reg :: "'s registry \<Rightarrow> bool" where
  "wf_reg r \<longleftrightarrow> wf_core r \<and> wf_slots r \<and> wf_bases r \<and> wf_labels r"

lemma wf_reg_new: "wf_reg new_registry"
  by (simp add: wf_reg_def wf_core_def wf_slots_def wf_bases_def wf_labels_def linked_def
      new_registry_def current_label_eq)

section \<open>What the invariant gives\<close>

lemma wf_coreD:
  assumes "wf_core r"
  shows wf_core_distinct: "im_distinct (streams r)" "im_distinct (servers r)"
    and wf_core_stream: "sget r i = Some h \<Longrightarrow> stream_entry_ok i h"
    and wf_core_server: "vget r p = Some s \<Longrightarrow> server_entry_ok p s"
    and wf_core_child: "vget r p = Some s \<Longrightarrow>
      is_member c (sv_children s) \<longleftrightarrow> (\<exists>h. sget r c = Some h \<and> has_parent p h)"
  using assms unfolding wf_core_def linked_def by blast+

lemma wf_not_both: "wf_core r \<Longrightarrow> sget r i = Some h \<Longrightarrow> vget r i = None"
  using wf_core_stream [of r i h] wf_core_server [of r i]
  by (cases "vget r i") (auto simp: stream_entry_ok_def server_entry_ok_def)

lemma wf_no_server: "wf_core r \<Longrightarrow> \<not> is_server i \<Longrightarrow> vget r i = None"
  using wf_core_server [of r i] by (cases "vget r i") (auto simp: server_entry_ok_def)

lemma wf_no_stream: "wf_core r \<Longrightarrow> is_server i \<Longrightarrow> sget r i = None"
  using wf_core_stream [of r i] by (cases "sget r i") (auto simp: stream_entry_ok_def)

lemma wf_slotsD: "wf_slots r \<Longrightarrow> sget r i = Some h \<Longrightarrow> slot_ok r (cs_id (sh_state h)) (sh_parent h)"
  by (simp add: wf_slots_def)

text \<open>An identifier without suffix and its renamed form are never registered together.\<close>

lemma no_both:
  assumes wf: "wf_core r" "wf_slots r" "wf_bases r"
    and h: "sget r i = Some h" "same_id i x" and h': "sget r j = Some h'" and ren: "renamed_from x j"
  shows False
proof -
  let ?a = "cs_id (sh_state h)" and ?a' = "cs_id (sh_state h')"
  from ren obtain p0 b0 where x: "slot x = Some (p0, b0, None)" and j: "same_id j (with_suffix (Some 1) x)"
    by (auto simp: renamed_from_def)
  have "same_id ?a i" "same_id ?a' j"
    using wf_core_stream [OF wf(1)] h(1) h' by (auto simp: stream_entry_ok_def)
  then have xa: "same_id x ?a" and xa': "same_id (with_suffix (Some 1) x) ?a'"
    using h(2) j by (auto simp: same_id_def)
  from xa x obtain p b where a: "slot ?a = Some (p, b, None)" by (rule same_slot)
  from xa' slot_with_suffix [OF x] obtain p' b' where a': "slot ?a' = Some (p', b', Some 1)"
    by (rule same_slot)
  have aa': "same_id ?a (with_suffix None ?a')"
    using same_id_with_suffix [OF xa', of None] with_suffix_id [OF x] xa by (simp add: same_id_def)
  from wf_slotsD [OF wf(2) h(1)] a obtain s where
    s: "vget r p = Some s" "sv_ipc_path s = raw_path p" "sv_base_no_suffix s b = Some ?a"
    by (auto simp: slot_ok_def suffix_known_def)
  from wf_slotsD [OF wf(2) h'] a' obtain s' where
    s': "vget r p' = Some s'" "sv_ipc_path s' = raw_path p'" "sv_disambig_next s' b' \<noteq> None"
    by (auto simp: slot_ok_def suffix_known_def)
  from aa' a obtain q c where q: "slot (with_suffix None ?a') = Some (q, c, None)" "same_id p q"
    "raw_path p = raw_path q \<longrightarrow> ?a = with_suffix None ?a'" by (rule same_slot)
  with slot_with_suffix [OF a', of None] have "q = p'" "c = b'" by auto
  with q s s' have "raw_path p = raw_path p'" using im_get_same [of p p' "servers r"] by auto
  with q slot_with_suffix [OF a', of None] a have "p = p'" "b = b'" by auto
  with s s' wf(3) show False by (auto simp: wf_bases_def base_ok_def)
qed

text \<open>A label has at most one carrier.\<close>

lemma label_unique:
  assumes wf: "wf_reg r" and i: "current_label r i = Some l" and j: "current_label r j = Some l"
  shows "same_id i j"
proof -
  have parts: "wf_core r" "wf_slots r" "wf_bases r" "wf_labels r" using wf by (auto simp: wf_reg_def)
  have not_server: "\<exists>h. sget r k = Some h" if "current_label r k = Some l" "renamed_from x k" for k x
  proof (cases "vget r k")
    case (Some s)
    then have "is_server k" using wf_core_server [OF parts(1)] by (auto simp: server_entry_ok_def)
    with that(2) show ?thesis
      using same_id_is_server [of k "with_suffix (Some 1) x"]
      by (auto simp: renamed_from_def dest!: slot_with_suffix [THEN slot_is_server])
  next
    case None
    with that(1) show ?thesis by (auto simp: current_label_eq split: option.splits)
  qed
  from parts(4) i j obtain x where x: "labels r l = Some x"
    "same_id x i \<or> renamed_from x i" "same_id x j \<or> renamed_from x j"
    unfolding wf_labels_def by (metis option.inject)
  have clash: False if "same_id x k" "renamed_from x k'" "current_label r k = Some l"
    "current_label r k' = Some l" for k k'
  proof -
    from not_server [OF that(4,2)] obtain h' where h': "sget r k' = Some h'" by blast
    have "\<not> is_server k"
      using that(1,2) same_id_is_server [of x k] by (auto simp: renamed_from_def dest: slot_is_server)
    then have "vget r k = None" by (rule wf_no_server [OF parts(1)])
    with that(3) obtain h where h: "sget r k = Some h"
      by (auto simp: current_label_eq split: option.splits)
    from no_both [OF parts(1-3) h same_id_sym [OF that(1)] h' that(2)] show False .
  qed
  from x(2,3) i j clash show ?thesis
    by (auto simp: renamed_from_def same_id_def)
qed

end
