(* ===== verification/Preserve.thy ===== *)
theory Preserve
  imports Invariant
begin

text \<open>
  Every operation of the registry preserves \<open>wf_reg\<close>. The two allocators are instances of one
  function, \<open>allocate_id\<close>, about which the lemmas are stated once.
\<close>

section \<open>Changes of servers that the slots do not see\<close>

definition tables :: "server_handle \<Rightarrow> _" where
  "tables s = (sv_ipc_path s, sv_disambig_next s, sv_base_no_suffix s)"

lemma tables_map_children [simp]: "tables (map_children f s) = tables s"
  by (simp add: tables_def)

lemma slot_ok_mono:
  assumes "slot_ok r a par"
    and "\<And>p s. vget r p = Some s \<Longrightarrow> slot a \<noteq> None \<Longrightarrow> parent_matches par p \<Longrightarrow>
       \<exists>s'. vget r' p = Some s' \<and> tables s' = tables s"
  shows "slot_ok r' a par"
  using assms
  by (fastforce simp: slot_ok_def suffix_known_def tables_def split: option.splits prod.splits)

lemma wf_slots_mono:
  assumes "wf_slots r"
    and "\<And>i h. sget r' i = Some h \<Longrightarrow>
      (\<exists>i'. sget r i' = Some h) \<or> slot_ok r (cs_id (sh_state h)) (sh_parent h)"
    and "\<And>p s. vget r p = Some s \<Longrightarrow> \<exists>s'. vget r' p = Some s' \<and> tables s' = tables s"
  shows "wf_slots r'"
  unfolding wf_slots_def
proof (intro allI impI)
  fix i h
  assume "sget r' i = Some h"
  from assms(2) [OF this] assms(1) have "slot_ok r (cs_id (sh_state h)) (sh_parent h)"
    by (auto simp: wf_slots_def)
  then show "slot_ok r' (cs_id (sh_state h)) (sh_parent h)" by (rule slot_ok_mono) (rule assms(3))
qed

lemma base_ok_tables: "tables s = tables s' \<Longrightarrow> base_ok p s = base_ok p s'"
  by (simp add: base_ok_def tables_def)

lemma wf_bases_mono:
  assumes "wf_bases r" and "\<And>p s'. vget r' p = Some s' \<Longrightarrow> \<exists>s. vget r p = Some s \<and> tables s = tables s'"
  shows "wf_bases r'"
  using assms base_ok_tables unfolding wf_bases_def by metis

lemma server_entry_ok_map_children [simp]: "server_entry_ok p (map_children f s) = server_entry_ok p s"
  by (simp add: server_entry_ok_def)

lemma slot_ok_parent:
  "slot_ok r a par \<Longrightarrow> slot a = Some (p, b, d) \<Longrightarrow> parent_matches par p"
  by (simp add: slot_ok_def)

text \<open>Two streams under equal identifiers have equal parents.\<close>

lemma slot_ok_same_parent:
  assumes "slot_ok r a par" and "slot_ok r a' par'" and "same_id a a'"
  shows "parent_matches par p \<longleftrightarrow> parent_matches par' p"
proof (cases "slot a")
  case None
  then have "slot a' = None" using assms(3) by (cases a; cases a') (auto simp: same_id_def)
  with None assms show ?thesis by (simp add: slot_ok_def parent_matches_def)
next
  case (Some t)
  then obtain q b d where a: "slot a = Some (q, b, d)" by (cases t) auto
  from assms(3) a obtain q' b' where a': "slot a' = Some (q', b', d)" "same_id q q'"
    by (rule same_slot)
  with a assms(1,2) show ?thesis
    by (auto simp: slot_ok_def parent_matches_def same_id_def)
qed

text \<open>An operation that takes carriers away keeps the other labels, if it forgets only theirs.\<close>

lemma wf_labels_mono:
  assumes lab: "wf_labels r"
    and kept: "\<And>j l. current_label r' j = Some l \<Longrightarrow> current_label r j = Some l \<and> labels r' l = labels r l"
  shows "wf_labels r'"
  unfolding wf_labels_def
proof (intro allI impI)
  fix j l
  assume "current_label r' j = Some l"
  from kept [OF this] lab show "\<exists>x. labels r' l = Some x \<and> (same_id x j \<or> renamed_from x j)"
    by (simp add: wf_labels_def)
qed

section \<open>insert\_stream\<close>

lemma insert_stream_linked:
  assumes wf: "wf_reg r" and ins: "insert_stream h r = (r', e)"
    and slot: "slot_ok r (cs_id (sh_state h)) (sh_parent h)"
  shows "linked r'"
  unfolding linked_def
proof (intro allI impI)
  fix p s' c
  assume s': "vget r' p = Some s'"
  let ?i = "cs_id (sh_state h)"
  note v = insert_stream_views [OF ins]
  have core: "wf_core r" and slots: "wf_slots r" using wf by (auto simp: wf_reg_def)
  have same_par: "has_parent p h0 \<longleftrightarrow> has_parent p h" if "sget r c = Some h0" "same_id ?i c" for h0
  proof -
    have "same_id (cs_id (sh_state h0)) ?i"
      using wf_core_stream [OF core that(1)] that(2) by (auto simp: stream_entry_ok_def same_id_def)
    then show ?thesis
      using slot_ok_same_parent [OF wf_slotsD [OF slots that(1)] slot] by (simp add: has_parent_alt)
  qed
  from s' obtain s where s: "vget r p = Some s"
    and s'_eq: "s' = (if has_parent p h then map_children (is_insert ?i) s else s)"
    by (auto simp: v split: if_splits)
  have "is_member c (sv_children s') \<longleftrightarrow>
      (if has_parent p h then same_id ?i c \<or> is_member c (sv_children s) else is_member c (sv_children s))"
    by (simp add: s'_eq ids.member_add)
  also have "\<dots> \<longleftrightarrow> (\<exists>h0. sget r' c = Some h0 \<and> has_parent p h0)"
    using wf_core_child [OF core s, of c] same_par by (auto simp: v)
  finally show "is_member c (sv_children s') \<longleftrightarrow> (\<exists>h0. sget r' c = Some h0 \<and> has_parent p h0)" .
qed

lemma wf_insert_stream [wf_intros]:
  assumes wf: "wf_reg r" and ins: "insert_stream h r = (r', e)"
    and ok: "\<not> is_server (cs_id (sh_state h))" "cs_status (sh_state h) = Connected"
      "cs_label (sh_state h) = None"
    and slot: "slot_ok r (cs_id (sh_state h)) (sh_parent h)"
  shows "wf_reg r'"
proof -
  let ?i = "cs_id (sh_state h)"
  note v = insert_stream_views [OF ins]
  have core: "wf_core r" and slots: "wf_slots r" and bases: "wf_bases r" and lab: "wf_labels r"
    using wf by (auto simp: wf_reg_def)
  have "\<forall>p s. vget r' p = Some s \<longrightarrow> server_entry_ok p s"
    using wf_core_server [OF core] by (auto simp: v split: if_splits)
  moreover have "\<forall>j h0. sget r' j = Some h0 \<longrightarrow> stream_entry_ok j h0"
    using wf_core_stream [OF core] ok
    by (auto simp: v stream_entry_ok_def split: if_splits dest: same_id_is_server)
  ultimately have core': "wf_core r'"
    using wf_core_distinct [OF core] insert_stream_linked [OF wf ins slot] by (simp add: wf_core_def v)
  have keep: "\<exists>s'. vget r' p = Some s' \<and> tables s' = tables s" if "vget r p = Some s" for p s
    using that by (simp add: v)
  have "wf_slots r'"
    using slot by (intro wf_slots_mono [OF slots _ keep]) (auto simp: v split: if_splits)
  moreover have "wf_bases r'"
    by (rule wf_bases_mono [OF bases]) (auto simp: v split: if_splits)
  moreover have "current_label r' j = (if same_id ?i j then None else current_label r j)" for j
    using ok(3) by (auto simp: current_label_eq v split: option.splits)
  then have "wf_labels r'"
    by (intro wf_labels_mono [OF lab]) (auto simp: v split: if_splits)
  ultimately show ?thesis using core' by (simp add: wf_reg_def)
qed

section \<open>drop\_stream\<close>

lemma drop_stream_label:
  assumes wf: "wf_reg r" and dr: "drop_stream i r = (r', e)" and hi: "sget r i = Some hi"
    and l: "current_label r' j = Some l"
  shows "current_label r j = Some l \<and> labels r' l = labels r l"
proof -
  note v = drop_stream_views [OF dr]
  have core: "wf_core r" using wf by (simp add: wf_reg_def)
  have j: "\<not> same_id i j" "current_label r j = Some l"
    using l wf_not_both [OF core hi] im_get_same [of i j "streams r"] im_get_same [of i j "servers r"]
    by (auto simp: current_label_eq v split: option.splits if_splits)
  have "stream_label r i \<noteq> Some l"
  proof
    assume "stream_label r i = Some l"
    then have "current_label r i = Some l"
      using hi by (simp add: stream_label_eq current_label_eq)
    from label_unique [OF wf this j(2)] j(1) show False by simp
  qed
  with j(2) show ?thesis by (simp add: v)
qed

lemma wf_drop_stream [wf_intros]:
  assumes wf: "wf_reg r" and dr: "drop_stream i r = (r', e)"
  shows "wf_reg r'"
proof (cases "sget r i")
  case None
  with wf dr show ?thesis by (simp add: drop_stream_absent)
next
  case (Some hi)
  note v = drop_stream_views [OF dr]
  have core: "wf_core r" and slots: "wf_slots r" and bases: "wf_bases r" and lab: "wf_labels r"
    using wf by (auto simp: wf_reg_def)
  have "linked r'"
    unfolding linked_def
  proof (intro allI impI)
    fix p s' c
    assume s': "vget r' p = Some s'"
    let ?par = "\<exists>h. sget r i = Some h \<and> has_parent p h"
    from s' obtain s where s: "vget r p = Some s"
      and s'_eq: "s' = (if ?par then map_children (is_remove i) s else s)"
      by (auto simp: v split: if_splits)
    have "is_member c (sv_children s') \<longleftrightarrow> \<not> (?par \<and> same_id i c) \<and> is_member c (sv_children s)"
      by (auto simp: s'_eq ids.member_delete)
    also have "\<dots> \<longleftrightarrow> (\<exists>h0. sget r' c = Some h0 \<and> has_parent p h0)"
      using wf_core_child [OF core s, of c] im_get_same [of i c "streams r"] by (auto simp: v)
    finally show "is_member c (sv_children s') \<longleftrightarrow> (\<exists>h0. sget r' c = Some h0 \<and> has_parent p h0)" .
  qed
  moreover have "\<forall>p s. vget r' p = Some s \<longrightarrow> server_entry_ok p s"
    using wf_core_server [OF core] by (auto simp: v split: if_splits)
  moreover have "\<forall>j h0. sget r' j = Some h0 \<longrightarrow> stream_entry_ok j h0"
    using wf_core_stream [OF core] by (auto simp: v split: if_splits)
  ultimately have core': "wf_core r'"
    using wf_core_distinct [OF core] by (simp add: wf_core_def v)
  have "\<exists>s'. vget r' p = Some s' \<and> tables s' = tables s" if "vget r p = Some s" for p s
    using that by (simp add: v)
  then have "wf_slots r'"
    by (intro wf_slots_mono [OF slots]) (auto simp: v split: if_splits)
  moreover have "wf_bases r'"
    by (rule wf_bases_mono [OF bases]) (auto simp: v split: if_splits)
  moreover have "wf_labels r'"
    by (rule wf_labels_mono [OF lab]) (rule drop_stream_label [OF wf dr Some])
  ultimately show ?thesis using core' by (simp add: wf_reg_def)
qed

section \<open>drop\_server\<close>

lemma drop_streams_vget:
  assumes "drop_streams cs r = (r', e)" and "vget r p0 = None"
    and "\<And>c h. c \<in> set cs \<Longrightarrow> sget r c = Some h \<Longrightarrow> has_parent p0 h"
  shows "vget r' p = vget r p"
  using assms
proof (induction cs arbitrary: r r' e)
  case Nil
  then show ?case by simp
next
  case (Cons c cs)
  obtain r1 e1 where 1: "drop_stream c r = (r1, e1)" by (cases "drop_stream c r")
  obtain r2 e2 where 2: "drop_streams cs r1 = (r2, e2)" by (cases "drop_streams cs r1")
  note v = drop_stream_views [OF 1]
  have same: "vget r1 q = vget r q" for q
  proof (cases "\<exists>h. sget r c = Some h \<and> has_parent q h")
    case True
    then have "same_id q p0" using Cons.prems(3) by (fastforce simp: has_parent_def same_id_def)
    then have "vget r q = None" using Cons.prems(2) im_get_same by metis
    then show ?thesis by (simp add: v)
  qed (auto simp: v)
  have "has_parent p0 h" if "d \<in> set cs" "sget r1 d = Some h" for d h
    using that Cons.prems(3) by (auto simp: v split: if_splits)
  with Cons.IH [OF 2] same Cons.prems(2) have "vget r2 p = vget r p" by simp
  with Cons.prems(1) 1 2 show ?case by simp
qed

lemma drop_server_absent: "vget r i = None \<Longrightarrow> drop_server i r = (r, [])"
  by (simp add: drop_server_def)

lemma drop_server_views [views]:
  assumes core: "wf_core r" and s0: "vget r p0 = Some s0" and dr: "drop_server p0 r = (r', e)"
  shows "sget r' j = (if is_member j (sv_children s0) then None else sget r j)"
    and "vget r' p = (if same_id p0 p then None else vget r p)"
    and "labels r' l =
      (if (\<exists>c\<in>set (sv_children s0). stream_label r c = Some l) \<or> cs_label (sv_state s0) = Some l
       then None else labels r l)"
    and "next_ipc_client_seq r' = next_ipc_client_seq r"
    and "im_distinct (streams r')" and "im_distinct (servers r')"
    and "im_dom (servers r') = im_dom (servers r) - {key p0}"
proof -
  let ?r1 = "r\<lparr>servers := im_remove p0 (servers r)\<rparr>"
  obtain r2 e2 where 2: "drop_streams (sv_children s0) ?r1 = (r2, e2)"
    by (cases "drop_streams (sv_children s0) ?r1")
  have r': "r' = forget_label (cs_label (sv_state s0)) r2"
    using dr by (simp add: drop_server_def s0 2 Let_def)
  note v = drop_streams_views [OF 2]
  have "has_parent p0 h" if "c \<in> set (sv_children s0)" "sget r c = Some h" for c h
    using wf_core_child [OF core s0, of c] that by (auto dest: is_member_in)
  then have "vget r2 q = vget ?r1 q" for q
    by (intro drop_streams_vget [OF 2, of p0]) auto
  then show "vget r' p = (if same_id p0 p then None else vget r p)"
    by (simp add: r' im_get_remove)
  show "sget r' j = (if is_member j (sv_children s0) then None else sget r j)"
    by (simp add: r' v is_member_def)
  show "labels r' l =
      (if (\<exists>c\<in>set (sv_children s0). stream_label r c = Some l) \<or> cs_label (sv_state s0) = Some l
       then None else labels r l)"
    by (simp add: r' v stream_label_def)
  show "next_ipc_client_seq r' = next_ipc_client_seq r" by (simp add: r' v)
  show "im_distinct (streams r')" "im_distinct (servers r')"
    using wf_core_distinct [OF core] by (simp_all add: r' v im_distinct_remove)
  show "im_dom (servers r') = im_dom (servers r) - {key p0}" by (simp add: r' v)
qed

lemma drop_server_label:
  assumes wf: "wf_reg r" and dr: "drop_server p0 r = (r', e)" and s0: "vget r p0 = Some s0"
    and l: "current_label r' j = Some l"
  shows "current_label r j = Some l \<and> labels r' l = labels r l"
proof -
  have core: "wf_core r" using wf by (simp add: wf_reg_def)
  note v = drop_server_views [OF core s0 dr]
  have j: "\<not> is_member j (sv_children s0)" "\<not> same_id p0 j" "current_label r j = Some l"
    using l wf_core_child [OF core s0, of j] wf_not_both [OF core, of j] im_get_same [of p0 j "servers r"] s0
    by (auto simp: current_label_eq v split: option.splits if_splits)
  have "stream_label r c \<noteq> Some l" if "c \<in> set (sv_children s0)" for c
  proof
    assume c: "stream_label r c = Some l"
    then have "current_label r c = Some l"
      by (auto simp: stream_label_eq current_label_eq bind_eq_Some_conv)
    from label_unique [OF wf this j(3)] that j(1) show False by (auto simp: is_member_def)
  qed
  moreover have "cs_label (sv_state s0) \<noteq> Some l"
  proof
    assume c: "cs_label (sv_state s0) = Some l"
    have "sget r p0 = None" using wf_not_both [OF core, of p0] s0 by (cases "sget r p0") auto
    with c s0 have "current_label r p0 = Some l" by (simp add: current_label_eq)
    from label_unique [OF wf this j(3)] j(2) show False by simp
  qed
  ultimately show ?thesis using j(3) by (auto simp: v)
qed

lemma wf_drop_server [wf_intros]:
  assumes wf: "wf_reg r" and dr: "drop_server p0 r = (r', e)"
  shows "wf_reg r'"
proof (cases "vget r p0")
  case None
  with wf dr show ?thesis by (simp add: drop_server_absent)
next
  case (Some s0)
  have core: "wf_core r" and slots: "wf_slots r" and bases: "wf_bases r" and lab: "wf_labels r"
    using wf by (auto simp: wf_reg_def)
  note v = drop_server_views [OF core Some dr]
  note child = wf_core_child [OF core Some]
  have other: "\<not> has_parent p h" if "is_member c (sv_children s0)" "sget r c = Some h" "\<not> same_id p0 p" for c h p
    using child [of c] that by (auto simp: has_parent_def same_id_def)
  have "linked r'"
    unfolding linked_def using wf_core_child [OF core] other by (auto simp: v split: if_splits)
  then have core': "wf_core r'"
    using wf_core_stream [OF core] wf_core_server [OF core]
    by (auto simp: wf_core_def v(5,6) v(1,2) split: if_splits)
  have "wf_slots r'"
    unfolding wf_slots_def
  proof (intro allI impI)
    fix i h
    assume "sget r' i = Some h"
    then have i: "\<not> is_member i (sv_children s0)" "sget r i = Some h" by (auto simp: v split: if_splits)
    then have "\<not> has_parent p0 h" using child [of i] by auto
    then have "\<not> same_id p0 p" if "parent_matches (sh_parent h) p" for p
      using that by (auto simp: has_parent_def parent_matches_def same_id_def)
    then show "slot_ok r' (cs_id (sh_state h)) (sh_parent h)"
      by (intro slot_ok_mono [OF wf_slotsD [OF slots i(2)]]) (auto simp: v)
  qed
  moreover have "wf_bases r'"
    by (rule wf_bases_mono [OF bases]) (auto simp: v split: if_splits)
  moreover have "wf_labels r'"
    by (rule wf_labels_mono [OF lab]) (rule drop_server_label [OF wf dr Some])
  ultimately show ?thesis using core' by (simp add: wf_reg_def)
qed

section \<open>apply\_label\<close>

lemma label_stream_simps [simp]:
  "cs_id (sh_state (label_stream n h)) = cs_id (sh_state h)"
  "cs_status (sh_state (label_stream n h)) = cs_status (sh_state h)"
  "cs_label (sh_state (label_stream n h)) = Some n"
  "sh_parent (label_stream n h) = sh_parent h"
  "sh_read_task (label_stream n h) = sh_read_task h"
  "has_parent p (label_stream n h) = has_parent p h"
  by (simp_all add: label_stream_def has_parent_def)

lemma label_server_simps [simp]:
  "cs_id (sv_state (label_server n s)) = cs_id (sv_state s)"
  "cs_status (sv_state (label_server n s)) = cs_status (sv_state s)"
  "cs_label (sv_state (label_server n s)) = Some n"
  "sv_children (label_server n s) = sv_children s"
  "sv_ipc_path (label_server n s) = sv_ipc_path s"
  "tables (label_server n s) = tables s"
  by (simp_all add: label_server_def tables_def)

lemma current_label_unregistered: "\<not> registered r i \<Longrightarrow> current_label r i = None"
  by (simp add: current_label_def)

lemma forget_label_None [simp]: "forget_label None r = r"
  by (simp add: forget_label_def)

text \<open>The three outcomes of \<open>apply_label\<close>.\<close>

lemma apply_label_taken:
  "labels r name = Some ex \<Longrightarrow> \<not> same_id ex i \<Longrightarrow>
     apply_label i name r = (Err (LabelAlreadyInUse name), r)"
  by (simp add: apply_label_def)

lemma apply_label_unknown:
  "\<not> registered r i \<Longrightarrow> (\<And>ex. labels r name = Some ex \<Longrightarrow> same_id ex i) \<Longrightarrow>
     apply_label i name r = (Err (UnknownId (show_id i)), r)"
  by (auto simp: apply_label_def current_label_unregistered Let_def split: option.split)

lemma apply_label_ok:
  assumes "registered r i" and "\<And>ex. labels r name = Some ex \<Longrightarrow> same_id ex i"
  shows "apply_label i name r =
    (Ok (), (forget_label (current_label r i) r)
       \<lparr>streams := (if im_contains (streams r) i then im_update i (label_stream name) (streams r) else streams r),
        servers := (if im_contains (streams r) i then servers r else im_update i (label_server name) (servers r)),
        labels := (labels (forget_label (current_label r i) r))(name \<mapsto> i)\<rparr>)"
  using assms by (auto simp: apply_label_def Let_def split: option.split)

lemma apply_label_ok_views [views]:
  assumes reg: "registered r i" and free: "\<And>ex. labels r name = Some ex \<Longrightarrow> same_id ex i"
    and core: "wf_core r" and ap: "apply_label i name r = (res, r')"
  shows "res = Ok ()"
    and "sget r' j = (if same_id i j then map_option (label_stream name) (sget r j) else sget r j)"
    and "vget r' p = (if same_id i p then map_option (label_server name) (vget r p) else vget r p)"
    and "labels r' l =
      (if l = name then Some i else if current_label r i = Some l then None else labels r l)"
    and "next_ipc_client_seq r' = next_ipc_client_seq r"
    and "im_distinct (streams r')" and "im_distinct (servers r')"
  using ap im_get_same [of i j "streams r"] im_get_same [of i p "servers r"]
    wf_not_both [OF core, of i] wf_core_distinct [OF core]
  by (auto simp: apply_label_ok [OF reg free] im_get_update im_contains_def split: if_splits)

lemma renamed_from_stream:
  assumes "renamed_from x j"
  shows "\<not> is_server x" and "\<not> is_server j"
proof -
  from assms obtain p b where x: "slot x = Some (p, b, None)" "same_id j (with_suffix (Some 1) x)"
    by (auto simp: renamed_from_def)
  then show "\<not> is_server x" by (simp add: slot_is_server)
  from x slot_with_suffix [OF x(1)] show "\<not> is_server j"
    by (metis same_id_is_server slot_is_server)
qed

text \<open>The map entry of a label leads to a registered identifier only if that one carries it.\<close>

lemma label_entry_carrier:
  assumes wf: "wf_reg r" and lab: "labels r l = Some x" and reg: "same_id x i" "registered r i"
    and j: "current_label r j = Some l"
  shows "same_id i j"
proof -
  have core: "wf_core r" and slots: "wf_slots r" and bases: "wf_bases r"
    using wf by (auto simp: wf_reg_def)
  from wf lab j consider "same_id x j" | "renamed_from x j"
    unfolding wf_reg_def wf_labels_def by (metis option.inject)
  then show ?thesis
  proof cases
    case 1
    with reg show ?thesis by (simp add: same_id_def)
  next
    case 2
    then have ns: "\<not> is_server x" "\<not> is_server j" by (simp_all add: renamed_from_stream)
    have "\<not> is_server i" using ns reg same_id_is_server by blast
    then have "vget r i = None" "vget r j = None"
      using wf_no_server [OF core] ns by simp_all
    with reg(2) j obtain h h' where "sget r i = Some h" "sget r j = Some h'"
      by (auto simp: im_contains_def current_label_eq split: option.splits)
    from no_both [OF core slots bases this(1) same_id_sym [OF reg(1)] this(2) 2] show ?thesis ..
  qed
qed

lemma apply_label_labels:
  assumes wf: "wf_reg r" and ap: "apply_label i name r = (res, r')"
    and ok: "registered r i" "\<And>ex. labels r name = Some ex \<Longrightarrow> same_id ex i"
  shows "wf_labels r'"
  unfolding wf_labels_def
proof (intro allI impI)
  fix j k
  assume cur: "current_label r' j = Some k"
  have core: "wf_core r" and lab: "wf_labels r" using wf by (auto simp: wf_reg_def)
  note views = apply_label_ok_views [OF ok core ap]
  from cur consider "same_id i j" "k = name" | "\<not> same_id i j" "current_label r j = Some k"
    using ok(1) im_get_same [of i j "streams r"] im_get_same [of i j "servers r"]
    by (cases "same_id i j") (auto simp: current_label_eq views(2,3) im_contains_def split: option.splits)
  then show "\<exists>x. labels r' k = Some x \<and> (same_id x j \<or> renamed_from x j)"
  proof cases
    case 1
    then show ?thesis by (simp add: views(4))
  next
    case 2
    have "k \<noteq> name"
    proof
      assume "k = name"
      with 2 lab obtain ex where "labels r name = Some ex" by (auto simp: wf_labels_def)
      with label_entry_carrier [OF wf this ok(2) [OF this] ok(1)] 2 \<open>k = name\<close> show False by simp
    qed
    moreover have "current_label r i \<noteq> Some k" using label_unique [OF wf _ 2(2)] 2(1) by auto
    ultimately show ?thesis using lab 2(2) by (auto simp: wf_labels_def views(4))
  qed
qed

lemma apply_label_core:
  assumes wf: "wf_reg r" and ap: "apply_label i name r = (res, r')"
    and ok: "registered r i" "\<And>ex. labels r name = Some ex \<Longrightarrow> same_id ex i"
  shows "wf_core r'" and "wf_slots r'" and "wf_bases r'"
proof -
  have core: "wf_core r" and slots: "wf_slots r" and bases: "wf_bases r"
    using wf by (auto simp: wf_reg_def)
  note views = apply_label_ok_views [OF ok core ap]
  note s = views(2) and v = views(3) and d = views(6,7)
  have "linked r'"
    unfolding linked_def using wf_core_child [OF core] by (auto simp: s v split: if_splits)
  moreover have "stream_entry_ok j h" if "sget r' j = Some h" for j h
    using that wf_core_stream [OF core, of j] by (auto simp: s stream_entry_ok_def split: if_splits)
  moreover have "server_entry_ok p h" if "vget r' p = Some h" for p h
    using that wf_core_server [OF core, of p] by (auto simp: v server_entry_ok_def split: if_splits)
  ultimately show "wf_core r'" using d by (auto simp: wf_core_def)
  show "wf_slots r'"
    unfolding wf_slots_def
  proof (intro allI impI)
    fix j h
    assume "sget r' j = Some h"
    then obtain h0 where "sget r j = Some h0" "cs_id (sh_state h) = cs_id (sh_state h0)"
      "sh_parent h = sh_parent h0" by (auto simp: s split: if_splits)
    with wf_slotsD [OF slots] have "slot_ok r (cs_id (sh_state h)) (sh_parent h)" by metis
    then show "slot_ok r' (cs_id (sh_state h)) (sh_parent h)"
      by (rule slot_ok_mono) (auto simp: v)
  qed
  show "wf_bases r'" by (rule wf_bases_mono [OF bases]) (auto simp: v split: if_splits)
qed

lemma wf_apply_label [wf_intros]:
  assumes wf: "wf_reg r" and ap: "apply_label i name r = (res, r')"
  shows "wf_reg r'"
proof -
  consider (taken) ex where "labels r name = Some ex" "\<not> same_id ex i"
    | (unknown) "\<not> registered r i" "\<And>ex. labels r name = Some ex \<Longrightarrow> same_id ex i"
    | (ok) "registered r i" "\<And>ex. labels r name = Some ex \<Longrightarrow> same_id ex i"
    by blast
  then show ?thesis
  proof cases
    case ok
    with apply_label_core [OF wf ap] apply_label_labels [OF wf ap] show ?thesis by (simp add: wf_reg_def)
  qed (use ap wf in \<open>simp_all add: apply_label_taken apply_label_unknown\<close>)
qed

section \<open>Allocation of accepted identifiers\<close>

definition allocate_id ::
  "(u32 option \<Rightarrow> connection_id) \<Rightarrow> string \<Rightarrow> connection_id \<Rightarrow> 's registry \<Rightarrow> 's allocation" where
  "allocate_id mk base par r =
     (case im_get (servers r) par of
        None \<Rightarrow> None
      | Some srv \<Rightarrow>
          if sv_base_no_suffix srv base = None \<and> sv_disambig_next srv base = None
          then Some (mk None, None, r\<lparr>servers := im_update par (set_base base (Some (mk None))) (servers r)\<rparr>, [])
          else (case sv_base_no_suffix srv base of
             Some old \<Rightarrow>
               let r1 = r\<lparr>servers := im_update par (set_base base None) (servers r)\<rparr>;
                   (r2, e) = rename_accepted_tcp old (mk (Some 1)) r1
               in (case im_get (servers r2) par of
                     None \<Rightarrow> None
                   | Some _ \<Rightarrow>
                       Some (mk (Some 2), Some (Renamed (mk (Some 1)) old),
                             r2\<lparr>servers := im_update par (set_next base 2) (servers r2)\<rparr>, e))
           | None \<Rightarrow>
               let this = (case sv_disambig_next srv base of Some n \<Rightarrow> n | None \<Rightarrow> 1)
               in Some (mk (Some this), None,
                        r\<lparr>servers := im_update par (set_next base (this + 1)) (servers r)\<rparr>, [])))"

lemma allocate_accepted_tcp_id_eq:
  "allocate_accepted_tcp_id p q r =
     allocate_id (AcceptedTcp p q) (show_word p @ ''.'' @ show_word q) (TcpServer p) r"
  unfolding allocate_accepted_tcp_id_def allocate_id_def Let_def ..

lemma allocate_accepted_ipc_id_eq:
  "allocate_accepted_ipc_id p q r =
     allocate_id (AcceptedIpc p q) (p @ ''.'' @ show_i32 q) (IpcServer p) r"
  unfolding allocate_accepted_ipc_id_def allocate_id_def rename_accepted_ipc_def Let_def ..

lemma table_updates [simp]:
  "sv_state (set_base b i s) = sv_state s" "sv_state (set_next b n s) = sv_state s"
  "sv_children (set_base b i s) = sv_children s" "sv_children (set_next b n s) = sv_children s"
  "sv_ipc_path (set_base b i s) = sv_ipc_path s" "sv_ipc_path (set_next b n s) = sv_ipc_path s"
  "sv_base_no_suffix (set_base b i s) = (sv_base_no_suffix s)(b := i)"
  "sv_base_no_suffix (set_next b n s) = sv_base_no_suffix s"
  "sv_disambig_next (set_base b i s) = sv_disambig_next s"
  "sv_disambig_next (set_next b n s) = (sv_disambig_next s)(b \<mapsto> n)"
  by (simp_all add: set_base_def set_next_def)

definition with_id :: "connection_id \<Rightarrow> 's stream_handle \<Rightarrow> 's stream_handle" where
  "with_id i h = h\<lparr>sh_state := (sh_state h)\<lparr>cs_id := i\<rparr>\<rparr>"

lemma with_id_simps [simp]:
  "cs_id (sh_state (with_id i h)) = i"
  "cs_status (sh_state (with_id i h)) = cs_status (sh_state h)"
  "cs_label (sh_state (with_id i h)) = cs_label (sh_state h)"
  "cs_peer_info (sh_state (with_id i h)) = cs_peer_info (sh_state h)"
  "sh_parent (with_id i h) = sh_parent h"
  "sh_stream (with_id i h) = sh_stream h"
  "sh_read_task (with_id i h) = sh_read_task h"
  "has_parent p (with_id i h) = has_parent p h"
  by (simp_all add: with_id_def has_parent_def)

lemma rename_absent: "sget r old = None \<Longrightarrow> rename_accepted_tcp old new r = (r, [])"
  by (simp add: rename_accepted_tcp_def)

lemma rename_views [views]:
  assumes "rename_accepted_tcp old new r = (r', e)" and "sget r old = Some h"
  shows "sget r' j = (if same_id new j then Some (with_id new h) else if same_id old j then None else sget r j)"
    and "vget r' p =
      (if has_parent p h then map_option (map_children (\<lambda>s. is_insert new (is_remove old s))) (vget r p)
       else vget r p)"
    and "labels r' = labels r"
    and "next_ipc_client_seq r' = next_ipc_client_seq r"
    and "im_distinct (streams r) \<Longrightarrow> im_distinct (streams r')"
    and "im_distinct (servers r') = im_distinct (servers r)"
    and "im_dom (servers r') = im_dom (servers r)"
    and "e = (if same_id old new then [] else displaced (sget r new))"
  using assms
  by (auto simp: rename_accepted_tcp_def Let_def im_get_insert im_get_remove im_distinct_insert
      im_distinct_remove has_parent_alt with_id_def displaced_def)

text \<open>A change of the disambiguation tables of one server.\<close>

lemma wf_tables_change:
  assumes wf: "wf_reg r" and srv: "vget r par = Some srv"
    and f: "\<And>s. sv_state (f s) = sv_state s" "\<And>s. sv_children (f s) = sv_children s"
      "\<And>s. sv_ipc_path (f s) = sv_ipc_path s"
    and known: "\<And>i h p b d. sget r i = Some h \<Longrightarrow> slot (cs_id (sh_state h)) = Some (p, b, d) \<Longrightarrow>
       same_id p par \<Longrightarrow> raw_path p = sv_ipc_path srv \<Longrightarrow>
       suffix_known srv b (cs_id (sh_state h)) d \<Longrightarrow> suffix_known (f srv) b (cs_id (sh_state h)) d"
    and base: "base_ok par (f srv)"
    and r': "r' = r\<lparr>servers := im_update par f (servers r)\<rparr>"
  shows "wf_reg r'"
proof -
  have core: "wf_core r" and slots: "wf_slots r" and bases: "wf_bases r" and lab: "wf_labels r"
    using wf by (auto simp: wf_reg_def)
  have srv': "vget r p = Some srv" if "same_id par p" for p
    using srv that im_get_same by metis
  have v: "vget r' p = (if same_id par p then Some (f srv) else vget r p)" for p
    using srv' [of p] by (simp add: r' im_get_update)
  have s: "sget r' i = sget r i" "labels r' = labels r" for i by (simp_all add: r')
  have "linked r'"
    unfolding linked_def using wf_core_child [OF core] srv' by (auto simp: v s f split: if_splits)
  moreover have "server_entry_ok p t" if "vget r' p = Some t" for p t
    using that wf_core_server [OF core, of p] srv' [of p]
    by (auto simp: v f server_entry_ok_def split: if_splits)
  ultimately have "wf_core r'"
    using wf_core_stream [OF core] wf_core_distinct [OF core] by (auto simp: wf_core_def s r')
  moreover have "wf_slots r'"
    unfolding wf_slots_def
  proof (intro allI impI)
    fix i h
    assume "sget r' i = Some h"
    then have h: "sget r i = Some h" by (simp add: s)
    from wf_slotsD [OF slots h] known [OF h] show "slot_ok r' (cs_id (sh_state h)) (sh_parent h)"
      using srv' by (fastforce simp: slot_ok_def v f same_id_def split: option.splits prod.splits)
  qed
  moreover have "base_ok p t" if "vget r' p = Some t" for p t
    using that bases base by (auto simp: v wf_bases_def base_ok_def same_id_def split: if_splits)
  then have "wf_bases r'" by (simp add: wf_bases_def)
  moreover have "current_label r' j = current_label r j" for j
    using srv' [of j] by (auto simp: current_label_eq v s f split: option.splits)
  then have "wf_labels r'" using lab by (simp add: wf_labels_def s)
  ultimately show ?thesis by (simp add: wf_reg_def)
qed

text \<open>While the base key has no counter, no identifier with a suffix is registered on it.\<close>

lemma suffix_fresh:
  assumes wf: "wf_reg r" and slot: "slot a = Some (par, b, Some n)"
    and srv: "vget r par = Some srv" "sv_ipc_path srv = raw_path par" "sv_disambig_next srv b = None"
  shows "sget r a = None"
proof (rule ccontr)
  assume "sget r a \<noteq> None"
  then obtain h where h: "sget r a = Some h" by blast
  let ?a = "cs_id (sh_state h)"
  from wf have core: "wf_core r" and slots: "wf_slots r" by (auto simp: wf_reg_def)
  have "same_id a ?a"
    using wf_core_stream [OF core h] by (simp add: stream_entry_ok_def same_id_sym)
  from this slot obtain p' b' where a': "slot ?a = Some (p', b', Some n)" "same_id par p'"
    "raw_path par = raw_path p' \<longrightarrow> a = ?a" by (rule same_slot)
  with wf_slotsD [OF slots h] obtain s' where
    "vget r p' = Some s'" "sv_ipc_path s' = raw_path p'" "sv_disambig_next s' b' \<noteq> None"
    by (auto simp: slot_ok_def suffix_known_def)
  with srv a' slot im_get_same [OF a'(2), of "servers r"] show False by auto
qed

text \<open>The renaming of the first connection of a base key, with the tables' change around it.\<close>

definition renaming ::
  "'s registry \<Rightarrow> connection_id \<Rightarrow> string \<Rightarrow> server_handle \<Rightarrow> connection_id \<Rightarrow> 's stream_handle
     \<Rightarrow> connection_id \<Rightarrow> 's registry \<Rightarrow> bool" where
  "renaming r par b srv old h new r' \<longleftrightarrow>
     wf_reg r \<and> vget r par = Some srv \<and> sv_ipc_path srv = raw_path par \<and>
     slot old = Some (par, b, None) \<and> sv_base_no_suffix srv b = Some old \<and> sget r old = Some h \<and>
     new = with_suffix (Some 1) old \<and>
     (\<forall>j. sget r' j =
        (if same_id new j then Some (with_id new h) else if same_id old j then None else sget r j)) \<and>
     (\<forall>p. vget r' p =
        (if same_id par p
         then Some (set_next b 2 (map_children (\<lambda>s. is_insert new (is_remove old s)) (set_base b None srv)))
         else vget r p)) \<and>
     labels r' = labels r \<and> im_distinct (streams r') \<and> im_distinct (servers r')"

lemma renamingD:
  assumes "renaming r par b srv old h new r'"
  shows "wf_reg r" and "vget r par = Some srv" and "sv_ipc_path srv = raw_path par"
    and "slot old = Some (par, b, None)" and "sv_base_no_suffix srv b = Some old" and "sget r old = Some h"
    and "new = with_suffix (Some 1) old"
    and "sget r' j =
        (if same_id new j then Some (with_id new h) else if same_id old j then None else sget r j)"
    and "vget r' p =
        (if same_id par p
         then Some (set_next b 2 (map_children (\<lambda>s. is_insert new (is_remove old s)) (set_base b None srv)))
         else vget r p)"
    and "labels r' = labels r" and "im_distinct (streams r')" and "im_distinct (servers r')"
  using assms by (simp_all add: renaming_def)

lemma renaming_facts:
  assumes ren: "renaming r par b srv old h new r'"
  shows "slot new = Some (par, b, Some 1)" and "base_ok par srv" and "sget r new = None"
    and "same_id par p \<Longrightarrow> vget r p = Some srv" and "has_parent p h \<longleftrightarrow> same_id par p"
proof -
  note d = renamingD [OF ren]
  have core: "wf_core r" and slots: "wf_slots r" and bases: "wf_bases r"
    using d(1) by (auto simp: wf_reg_def)
  show sn: "slot new = Some (par, b, Some 1)" using slot_with_suffix [OF d(4)] d(7) by simp
  show base: "base_ok par srv" using bases d(2) by (simp add: wf_bases_def)
  then have "sv_disambig_next srv b = None" using d(5) by (simp add: base_ok_def)
  then show "sget r new = None" by (rule suffix_fresh [OF d(1) sn d(2,3)])
  show "vget r p = Some srv" if "same_id par p" using d(2) that im_get_same by metis
  have "same_id old (cs_id (sh_state h))"
    using wf_core_stream [OF core d(6)] by (simp add: stream_entry_ok_def same_id_sym)
  from this d(4) obtain q c where "slot (cs_id (sh_state h)) = Some (q, c, None)" "same_id par q"
    by (rule same_slot)
  with wf_slotsD [OF slots d(6)] show "has_parent p h \<longleftrightarrow> same_id par p"
    by (auto simp: slot_ok_def parent_matches_def has_parent_def same_id_def)
qed

lemma renaming_linked:
  assumes ren: "renaming r par b srv old h new r'"
  shows "linked r'"
  unfolding linked_def
proof (intro allI impI)
  fix p t c
  assume t: "vget r' p = Some t"
  note d = renamingD [OF ren] and f = renaming_facts [OF ren]
  have core: "wf_core r" using d(1) by (simp add: wf_reg_def)
  show "is_member c (sv_children t) \<longleftrightarrow> (\<exists>h0. sget r' c = Some h0 \<and> has_parent p h0)"
  proof (cases "same_id par p")
    case True
    then have "is_member c (sv_children t) \<longleftrightarrow> same_id new c \<or> (\<not> same_id old c \<and> is_member c (sv_children srv))"
      using t by (auto simp: d(9) ids.member_swap)
    then show ?thesis
      using wf_core_child [OF core f(4) [OF True], of c] True by (auto simp: d(8) f(5))
  next
    case False
    then have "vget r p = Some t" using t by (simp add: d(9))
    from wf_core_child [OF core this, of c] False show ?thesis
      using im_get_same [of new c "streams r"] im_get_same [of old c "streams r"] f(3) d(6)
      by (auto simp: d(8) f(5))
  qed
qed

lemma renaming_core:
  assumes ren: "renaming r par b srv old h new r'"
  shows "wf_core r'"
proof -
  note d = renamingD [OF ren] and f = renaming_facts [OF ren]
  have core: "wf_core r" using d(1) by (simp add: wf_reg_def)
  have "stream_entry_ok j h0" if "sget r' j = Some h0" for j h0
    using that wf_core_stream [OF core, of j] wf_core_stream [OF core d(6)] slot_is_server [OF f(1)]
      same_id_is_server [of new j]
    by (auto simp: d(8) stream_entry_ok_def split: if_splits)
  moreover have "server_entry_ok p t" if "vget r' p = Some t" for p t
    using that wf_core_server [OF core, of p] f(4) [of p]
    by (auto simp: d(9) server_entry_ok_def split: if_splits)
  ultimately show ?thesis using renaming_linked [OF ren] d(11,12) by (auto simp: wf_core_def)
qed

lemma renaming_slots:
  assumes ren: "renaming r par b srv old h new r'"
  shows "wf_slots r'"
  unfolding wf_slots_def
proof (intro allI impI)
  fix j h0
  assume h0: "sget r' j = Some h0"
  note d = renamingD [OF ren] and f = renaming_facts [OF ren]
  have core: "wf_core r" and slots: "wf_slots r" using d(1) by (auto simp: wf_reg_def)
  show "slot_ok r' (cs_id (sh_state h0)) (sh_parent h0)"
  proof (cases "same_id new j")
    case True
    with h0 have "h0 = with_id new h" by (simp add: d(8))
    moreover have "parent_matches (sh_parent h) par" using f(5) [of par] by (simp add: has_parent_alt)
    ultimately show ?thesis using d(2,3) by (simp add: slot_ok_def f(1) d(9) suffix_known_def)
  next
    case False
    with h0 have j: "\<not> same_id old j" "sget r j = Some h0" by (auto simp: d(8) split: if_splits)
    let ?a = "cs_id (sh_state h0)"
    have "same_id ?a j" using wf_core_stream [OF core j(2)] by (simp add: stream_entry_ok_def)
    with j(1) have "?a \<noteq> old" by auto
    with wf_slotsD [OF slots j(2)] show ?thesis
      using f(4) d(5)
      by (fastforce simp: slot_ok_def d(9) suffix_known_def split: option.splits prod.splits)
  qed
qed

lemma renaming_labels:
  assumes ren: "renaming r par b srv old h new r'"
  shows "wf_labels r'"
  unfolding wf_labels_def
proof (intro allI impI)
  fix j l
  assume l: "current_label r' j = Some l"
  note d = renamingD [OF ren] and f = renaming_facts [OF ren]
  have core: "wf_core r" and lab: "wf_labels r" using d(1) by (auto simp: wf_reg_def)
  show "\<exists>x. labels r' l = Some x \<and> (same_id x j \<or> renamed_from x j)"
  proof (cases "same_id new j")
    case True
    with l have "current_label r old = Some l" by (simp add: current_label_eq d(6,8))
    with lab obtain x where x: "labels r l = Some x" "same_id x old \<or> renamed_from x old"
      by (auto simp: wf_labels_def)
    have "\<not> renamed_from x old"
      unfolding renamed_from_def using same_id_suffix [OF d(4)] slot_with_suffix
      by (metis option.distinct(1))
    with x have xo: "same_id x old" by simp
    from same_id_sym [OF this] d(4) obtain q c where "slot x = Some (q, c, None)" by (rule same_slot)
    moreover have "same_id j (with_suffix (Some 1) x)"
      using True same_id_with_suffix [OF xo, of "Some 1"] d(7) by (simp add: same_id_def)
    ultimately show ?thesis using x(1) by (auto simp: renamed_from_def d(10))
  next
    case False
    with l have "current_label r j = Some l"
      using f(4) [of j] wf_no_server [OF core, of old] slot_is_server [OF d(4)]
        im_get_same [of old j "servers r"]
      by (auto simp: current_label_eq d(8,9) split: option.splits if_splits)
    with lab show ?thesis by (simp add: wf_labels_def d(10))
  qed
qed

lemma wf_rename_first:
  assumes ren: "renaming r par b srv old h new r'"
  shows "wf_reg r'"
proof -
  note d = renamingD [OF ren] and f = renaming_facts [OF ren]
  have "wf_bases r" using d(1) by (simp add: wf_reg_def)
  then have "base_ok p t" if "vget r' p = Some t" for p t
    using that f(2) by (auto simp: d(9) wf_bases_def base_ok_def same_id_def split: if_splits)
  then have "wf_bases r'" by (simp add: wf_bases_def)
  then show ?thesis
    using renaming_core [OF ren] renaming_slots [OF ren] renaming_labels [OF ren] by (simp add: wf_reg_def)
qed

text \<open>
  The allocator under the invariant: it succeeds, keeps the invariant, displaces nothing, and the
  new identifier is known to the tables of its server.
\<close>

definition allocated ::
  "(u32 option \<Rightarrow> connection_id) \<Rightarrow> string \<Rightarrow> connection_id \<Rightarrow> 's registry \<Rightarrow> bool" where
  "allocated mk b par r \<longleftrightarrow>
     (\<exists>d ev r1. allocate_id mk b par r = Some (mk d, ev, r1, []) \<and> wf_reg r1 \<and> slot_ok r1 (mk d) (Some par))"

lemma allocatedI:
  "allocate_id mk b par r = Some (mk d, ev, r1, []) \<Longrightarrow> wf_reg r1 \<Longrightarrow> slot_ok r1 (mk d) (Some par) \<Longrightarrow>
     allocated mk b par r"
  by (auto simp: allocated_def)

lemma allocated_first:
  assumes wf: "wf_reg r" and srv: "vget r par = Some srv" "sv_ipc_path srv = raw_path par"
    and mk: "\<And>d. slot (mk d) = Some (par, b, d)"
    and first: "sv_base_no_suffix srv b = None" "sv_disambig_next srv b = None"
  shows "allocated mk b par r"
proof (rule allocatedI)
  let ?f = "set_base b (Some (mk None))"
  let ?r = "r\<lparr>servers := im_update par ?f (servers r)\<rparr>"
  show "allocate_id mk b par r = Some (mk None, None, ?r, [])"
    using first srv by (simp add: allocate_id_def)
  have "base_ok par srv" using wf srv by (simp add: wf_reg_def wf_bases_def)
  show "wf_reg ?r"
  proof (rule wf_tables_change [OF wf srv(1) _ _ _ _ _ refl])
    show "base_ok par (?f srv)" using \<open>base_ok par srv\<close> first mk srv by (auto simp: base_ok_def)
  qed (auto simp: suffix_known_def first split: option.splits)
  show "slot_ok ?r (mk None) (Some par)"
    using srv by (simp add: slot_ok_def mk parent_matches_def suffix_known_def im_get_update)
qed

lemma allocated_later:
  assumes wf: "wf_reg r" and srv: "vget r par = Some srv" "sv_ipc_path srv = raw_path par"
    and mk: "\<And>d. slot (mk d) = Some (par, b, d)"
    and later: "sv_base_no_suffix srv b = None" "sv_disambig_next srv b = Some n"
  shows "allocated mk b par r"
proof (rule allocatedI)
  let ?f = "set_next b (n + 1)"
  let ?r = "r\<lparr>servers := im_update par ?f (servers r)\<rparr>"
  show "allocate_id mk b par r = Some (mk (Some n), None, ?r, [])"
    using later srv by (simp add: allocate_id_def)
  have "base_ok par srv" using wf srv by (simp add: wf_reg_def wf_bases_def)
  show "wf_reg ?r"
  proof (rule wf_tables_change [OF wf srv(1) _ _ _ _ _ refl])
    show "base_ok par (?f srv)" using \<open>base_ok par srv\<close> later by (auto simp: base_ok_def)
  qed (auto simp: suffix_known_def split: option.splits)
  show "slot_ok ?r (mk (Some n)) (Some par)"
    using srv by (simp add: slot_ok_def mk parent_matches_def suffix_known_def im_get_update)
qed

text \<open>The first connection of the base key is known to the tables, but is no longer registered.\<close>

lemma allocated_gone:
  assumes wf: "wf_reg r" and srv: "vget r par = Some srv" "sv_ipc_path srv = raw_path par"
    and mk: "\<And>d. slot (mk d) = Some (par, b, d)"
    and old: "sv_base_no_suffix srv b = Some old" "sget r old = None"
  shows "allocated mk b par r"
proof (rule allocatedI)
  have core: "wf_core r" and bok: "base_ok par srv"
    using wf srv by (auto simp: wf_reg_def wf_bases_def)
  let ?f = "\<lambda>s. set_next b 2 (set_base b None s)"
  let ?r = "r\<lparr>servers := im_update par (set_next b 2) (im_update par (set_base b None) (servers r))\<rparr>"
  have upd: "im_update par (set_next b 2) (im_update par (set_base b None) m) = im_update par ?f m" for m
    by (induction m) auto
  show "allocate_id mk b par r = Some (mk (Some 2), Some (Renamed (mk (Some 1)) old), ?r, [])"
    using old srv by (simp add: allocate_id_def rename_absent Let_def im_get_update)
  have "wf_reg (r\<lparr>servers := im_update par ?f (servers r)\<rparr>)"
  proof (rule wf_tables_change [OF wf srv(1) _ _ _ _ _ refl])
    show "base_ok par (?f srv)" using bok by (auto simp: base_ok_def)
  next
    fix i h p c d
    assume h: "sget r i = Some h" and known: "suffix_known srv c (cs_id (sh_state h)) d"
    have "cs_id (sh_state h) \<noteq> old"
      using wf_core_stream [OF core h] old(2) im_get_same [of old i "streams r"] h
      by (auto simp: stream_entry_ok_def)
    with known show "suffix_known (?f srv) c (cs_id (sh_state h)) d"
      using old(1) by (auto simp: suffix_known_def split: option.splits)
  qed simp_all
  then show "wf_reg ?r" by (simp add: upd)
  show "slot_ok ?r (mk (Some 2)) (Some par)"
    using srv by (simp add: slot_ok_def mk parent_matches_def suffix_known_def im_get_update)
qed

lemma base_holder:
  assumes wf: "wf_reg r" and srv: "vget r par = Some srv" "sv_ipc_path srv = raw_path par"
    and mk: "\<And>d. slot (mk d) = Some (par, b, d)" and old: "sv_base_no_suffix srv b = Some old"
  shows "slot old = Some (par, b, None)" and "mk (Some 1) = with_suffix (Some 1) old"
    and "sv_disambig_next srv b = None"
proof -
  have bok: "base_ok par srv" using wf srv by (simp add: wf_reg_def wf_bases_def)
  with old obtain q where "slot old = Some (q, b, None)" "same_id q par" "raw_path q = raw_path par"
    by (auto simp: base_ok_def srv)
  then show slot: "slot old = Some (par, b, None)" using same_id_raw_path slot_is_server by metis
  show "mk (Some 1) = with_suffix (Some 1) old"
    by (rule slot_inject [OF mk]) (rule slot_with_suffix [OF slot])
  show "sv_disambig_next srv b = None" using bok old by (simp add: base_ok_def)
qed

text \<open>The first connection of the base key is registered: the allocator renames it.\<close>

lemma allocated_second:
  assumes wf: "wf_reg r" and srv: "vget r par = Some srv" "sv_ipc_path srv = raw_path par"
    and mk: "\<And>d. slot (mk d) = Some (par, b, d)"
    and old: "sv_base_no_suffix srv b = Some old" "sget r old = Some h"
  shows "allocated mk b par r"
proof -
  let ?new = "mk (Some 1)"
  let ?r1 = "r\<lparr>servers := im_update par (set_base b None) (servers r)\<rparr>"
  note holder = base_holder [OF wf srv mk old(1)]
  have core: "wf_core r" and slots: "wf_slots r" using wf by (auto simp: wf_reg_def)
  obtain r2 e where ren: "rename_accepted_tcp old ?new ?r1 = (r2, e)"
    by (cases "rename_accepted_tcp old ?new ?r1")
  note v = rename_views [OF ren, simplified, OF old(2)]
  have "same_id old (cs_id (sh_state h))"
    using wf_core_stream [OF core old(2)] by (simp add: stream_entry_ok_def same_id_sym)
  from this holder(1) obtain q c where "slot (cs_id (sh_state h)) = Some (q, c, None)" "same_id par q"
    by (rule same_slot)
  with wf_slotsD [OF slots old(2)] have par_h: "has_parent p h \<longleftrightarrow> same_id par p" for p
    by (auto simp: slot_ok_def parent_matches_def has_parent_def same_id_def)
  let ?g = "map_children (\<lambda>s. is_insert ?new (is_remove old s)) (set_base b None srv)"
  have v2: "vget r2 p = (if same_id par p then Some ?g else vget r p)" for p
    using srv(1) im_get_same [of par p "servers r"]
    by (cases "same_id par p") (simp_all add: v par_h im_get_update)
  have "sget r ?new = None" by (rule suffix_fresh [OF wf mk srv holder(3)])
  then have e: "e = []" by (simp add: v displaced_def)
  let ?r3 = "r2\<lparr>servers := im_update par (set_next b 2) (servers r2)\<rparr>"
  have al: "allocate_id mk b par r = Some (mk (Some 2), Some (Renamed ?new old), ?r3, [])"
    using old srv ren e by (simp add: allocate_id_def v2)
  have "renaming r par b srv old h ?new ?r3"
    using wf srv old holder wf_core_distinct [OF core] v(5,6)
    by (simp add: renaming_def v(1,3) v2 im_get_update)
  then have wf3: "wf_reg ?r3" by (rule wf_rename_first)
  have "slot_ok ?r3 (mk (Some 2)) (Some par)"
    using srv by (simp add: slot_ok_def mk parent_matches_def suffix_known_def im_get_update v2)
  with al wf3 show ?thesis by (rule allocatedI)
qed

lemma allocate_id_wf:
  assumes "wf_reg r" and "vget r par = Some srv" "sv_ipc_path srv = raw_path par"
    and "\<And>d. slot (mk d) = Some (par, b, d)"
  obtains d ev r1 where "allocate_id mk b par r = Some (mk d, ev, r1, [])" and "wf_reg r1"
    and "slot_ok r1 (mk d) (Some par)"
proof -
  have "allocated mk b par r"
    using allocated_first [OF assms] allocated_later [OF assms] allocated_gone [OF assms]
      allocated_second [OF assms]
    by (metis not_None_eq)
  then show thesis using that by (auto simp: allocated_def)
qed

end
