(* ===== verification/Runtime_Facts.thy ===== *)
theory Runtime_Facts
  imports Runtime Preserve
begin

text \<open>
  The handlers of the registry task under the registry's invariant: every input keeps it, when a
  handler panics, and what is left after shutdown.
\<close>

section \<open>Writing\<close>

lemma wf_stream_change:
  assumes wf: "wf_reg r" and r': "r' = r\<lparr>streams := im_update i f (streams r)\<rparr>"
    and f: "\<And>h. sh_state (f h) = sh_state h" "\<And>h. sh_parent (f h) = sh_parent h"
  shows "wf_reg r'"
proof -
  have core: "wf_core r" and slots: "wf_slots r" and bases: "wf_bases r" and lab: "wf_labels r"
    using wf by (auto simp: wf_reg_def)
  have s: "sget r' j = (if same_id i j then map_option f (sget r j) else sget r j)" for j
    by (simp add: r' im_get_update)
  have v [simp]: "servers r' = servers r" "labels r' = labels r" by (simp_all add: r')
  have hp: "has_parent p (f h) = has_parent p h" for p h by (simp add: has_parent_def f)
  have "linked r'"
    unfolding linked_def using wf_core_child [OF core] by (auto simp: s hp)
  moreover have "stream_entry_ok j h" if "sget r' j = Some h" for j h
    using that wf_core_stream [OF core, of j] by (auto simp: s stream_entry_ok_def f split: if_splits)
  ultimately have "wf_core r'"
    using wf_core_distinct [OF core] wf_core_server [OF core] by (auto simp: wf_core_def r')
  moreover have "slot_ok r' (cs_id (sh_state h)) (sh_parent h)" if "sget r' j = Some h" for j h
  proof -
    from that obtain h0 where "sget r j = Some h0" "sh_state h = sh_state h0" "sh_parent h = sh_parent h0"
      by (auto simp: s f split: if_splits)
    with wf_slotsD [OF slots] have "slot_ok r (cs_id (sh_state h)) (sh_parent h)" by metis
    then show ?thesis by (rule slot_ok_mono) (simp add: v)
  qed
  then have "wf_slots r'" by (simp add: wf_slots_def)
  moreover have "wf_bases r'" using bases by (simp add: wf_bases_def)
  moreover have "current_label r' j = current_label r j" for j
    by (auto simp: current_label_eq s f split: option.split)
  then have "wf_labels r'" using lab by (simp add: wf_labels_def)
  ultimately show ?thesis by (simp add: wf_reg_def)
qed

lemma write_to_stream_shape:
  assumes "write_to_stream io i bytes r = (res, r')"
  obtains "r' = r" | s where "r' = r\<lparr>streams := im_update i (set_stream s) (streams r)\<rparr>"
  using assms by (auto simp: write_to_stream_def split: option.splits if_splits prod.splits)

lemma wf_write_to_stream [wf_intros]:
  "wf_reg r \<Longrightarrow> write_to_stream io i bytes r = (res, r') \<Longrightarrow> wf_reg r'"
  by (erule write_to_stream_shape) (auto intro: wf_stream_change simp: set_stream_def)

lemma wf_broadcast [wf_intros]:
  "wf_reg r \<Longrightarrow> broadcast io cs bytes r = (r', e) \<Longrightarrow> wf_reg r'"
  by (induction cs arbitrary: r e) (auto simp: Let_def split: prod.splits dest: wf_write_to_stream)

lemma wf_send_bytes [wf_intros]:
  "wf_reg r \<Longrightarrow> send_bytes io i bytes r = (res, r', e) \<Longrightarrow> wf_reg r'"
  by (auto simp: send_bytes_def Let_def split: if_splits option.splits prod.splits
      dest: wf_write_to_stream wf_broadcast)

section \<open>Opening\<close>

lemma removing_iff [simp]:
  "removing files res = (out, r', e) \<longleftrightarrow> (\<exists>e0. res = (out, r', e0) \<and> e = map RemoveFile files @ e0)"
  by (auto simp: removing_def split: prod.splits)

lemma start_server_views:
  assumes "start_server i t p al r = (out, r', e)" and "vget r i = None"
  shows "vget r' q = (if same_id i q then Some (new_server i t p) else vget r q)"
    and "same_id i q \<Longrightarrow> vget r q = None" and "streams r' = streams r" and "labels r' = labels r"
    and "im_distinct (servers r) \<Longrightarrow> im_distinct (servers r')"
  using assms im_get_same [of i q "servers r"]
  by (auto simp: start_server_def im_get_insert im_distinct_insert)

text \<open>No registered stream has a parent that is not registered.\<close>

lemma no_orphan:
  assumes wf: "wf_reg r" and h: "sget r c = Some h" and q: "vget r q = None"
  shows "\<not> has_parent q h"
proof
  assume hp: "has_parent q h"
  have slots: "wf_slots r" using wf by (simp add: wf_reg_def)
  show False
  proof (cases "slot (cs_id (sh_state h))")
    case None
    with wf_slotsD [OF slots h] hp show False by (simp add: slot_ok_def has_parent_def)
  next
    case (Some t)
    with wf_slotsD [OF slots h] obtain p' s where
      "parent_matches (sh_parent h) p'" "vget r p' = Some s" by (auto simp: slot_ok_def)
    with hp q im_get_same [of q p' "servers r"] show False
      by (auto simp: has_parent_def parent_matches_def same_id_def)
  qed
qed

lemma start_server_linked:
  assumes wf: "wf_reg r" and st: "start_server i t p al r = (out, r', e)" and new: "vget r i = None"
  shows "linked r'"
  unfolding linked_def
proof (intro allI impI)
  fix q s c
  assume s: "vget r' q = Some s"
  note v = start_server_views [OF st new]
  have core: "wf_core r" using wf by (simp add: wf_reg_def)
  show "is_member c (sv_children s) \<longleftrightarrow> (\<exists>h. sget r' c = Some h \<and> has_parent q h)"
  proof (cases "same_id i q")
    case True
    with s have "sv_children s = []" by (auto simp: v(1) new_server_def)
    with no_orphan [OF wf _ v(2) [OF True]] show ?thesis by (auto simp: v(3))
  next
    case False
    with s have "vget r q = Some s" by (simp add: v(1))
    from wf_core_child [OF core this, of c] show ?thesis by (simp add: v(3))
  qed
qed

lemma wf_start_server [wf_intros]:
  assumes wf: "wf_reg r" and st: "start_server i t p al r = (out, r', e)"
    and i: "is_server i" "p = raw_path i" and new: "vget r i = None"
  shows "wf_reg r'"
proof -
  have core: "wf_core r" and slots: "wf_slots r" and bases: "wf_bases r" and lab: "wf_labels r"
    using wf by (auto simp: wf_reg_def)
  note v = start_server_views [OF st new]
  have "server_entry_ok q s" if "vget r' q = Some s" for q s
    using that wf_core_server [OF core, of q] i same_id_is_server [of i q]
    by (auto simp: v(1) server_entry_ok_def new_server_def new_connected_def split: if_splits)
  then have "wf_core r'"
    using wf_core_distinct [OF core] wf_core_stream [OF core] start_server_linked [OF wf st new]
    by (simp add: wf_core_def v(3,5))
  moreover have "slot_ok r' (cs_id (sh_state h)) (sh_parent h)" if "sget r j = Some h" for j h
    using wf_slotsD [OF slots that]
  proof (rule slot_ok_mono)
    fix q s
    assume "vget r q = Some s"
    with v(2) [of q] show "\<exists>s'. vget r' q = Some s' \<and> tables s' = tables s" by (auto simp: v(1))
  qed
  then have "wf_slots r'" by (simp add: wf_slots_def v(3))
  moreover have "base_ok q s" if "vget r' q = Some s" for q s
    using that bases by (auto simp: v(1) wf_bases_def base_ok_def new_server_def split: if_splits)
  then have "wf_bases r'" by (simp add: wf_bases_def)
  moreover have "current_label r' j = current_label r j" for j
    using v(2) [of j]
    by (cases "same_id i j")
       (simp_all add: current_label_eq v(1,3) new_server_def new_connected_def split: option.split)
  then have "wf_labels r'" using lab by (simp add: wf_labels_def v(4))
  ultimately show ?thesis by (simp add: wf_reg_def)
qed

lemma wf_open_tcp_server [wf_intros]:
  "wf_reg r \<Longrightarrow> open_tcp_server d p r = (out, r', e) \<Longrightarrow> wf_reg r'"
  by (auto simp: open_tcp_server_def fail_with_def im_contains_def Let_def
      split: if_splits sum.splits intro: wf_start_server)

lemma wf_open_ipc_server [wf_intros]:
  "wf_reg r \<Longrightarrow> open_ipc_server d p r = (out, r', e) \<Longrightarrow> wf_reg r'"
  by (auto simp: open_ipc_server_def fail_with_def im_contains_def Let_def
      split: if_splits sum.splits intro: wf_start_server)

lemma spawn_stream_simps [simp]:
  "spawn_stream t i s peer par =
     (\<lparr>sh_state = new_connected i peer, sh_stream = s, sh_read_task = t, sh_parent = par\<rparr>, [SpawnRead t i])"
  by (simp add: spawn_stream_def)

lemma new_connected_simps [simp]:
  "cs_id (new_connected i p) = i" "cs_status (new_connected i p) = Connected"
  "cs_label (new_connected i p) = None" "cs_peer_info (new_connected i p) = p"
  by (simp_all add: new_connected_def)

lemma wf_new_stream [wf_intros]:
  assumes "wf_reg r" and "insert_stream h r = (r', e)"
    and "h = \<lparr>sh_state = new_connected i peer, sh_stream = s, sh_read_task = t, sh_parent = par\<rparr>"
    and "\<not> is_server i" and "slot_ok r i par"
  shows "wf_reg r'"
  using assms by (intro wf_insert_stream [OF assms(1,2)]) simp_all

lemma wf_open_tcp_client [wf_intros]:
  assumes wf: "wf_reg r" and op: "open_tcp_client d lp host rp r = (out, r', e)"
  shows "wf_reg r'"
proof (cases "registered r (TcpClient lp)")
  case True
  with op wf show ?thesis by (auto simp: open_tcp_client_def fail_with_def Let_def)
next
  case False
  show ?thesis
  proof (cases "dep_connect d (TcpEndpoint lp host rp)")
    case (Inl err)
    with op wf False show ?thesis by (simp add: open_tcp_client_def fail_with_def Let_def)
  next
    case (Inr s)
    let ?h = "\<lparr>sh_state = new_connected (TcpClient lp) (Some (TcpSocket (host @ '':'' @ show_word rp))),
      sh_stream = s, sh_read_task = dep_task d, sh_parent = None\<rparr>"
    obtain r1 e1 where ins: "insert_stream ?h r = (r1, e1)" by (cases "insert_stream ?h r")
    with op False Inr have "r' = r1" by (simp add: open_tcp_client_def Let_def)
    then show ?thesis using wf_new_stream [OF wf ins refl] by (simp add: slot_ok_def)
  qed
qed

lemma wf_seq_change:
  assumes "wf_reg r"
  shows "wf_reg (r\<lparr>next_ipc_client_seq := n\<rparr>)"
proof -
  let ?r = "r\<lparr>next_ipc_client_seq := n\<rparr>"
  have "wf_core ?r" using assms by (simp add: wf_reg_def wf_core_def linked_def)
  moreover have "wf_slots ?r"
  proof (rule wf_slots_mono)
    show "wf_slots r" using assms by (simp add: wf_reg_def)
  next
    fix i and h :: "'a stream_handle"
    assume "sget ?r i = Some h"
    then have "sget r i = Some h" by simp
    then show "(\<exists>i'. sget r i' = Some h) \<or> slot_ok r (cs_id (sh_state h)) (sh_parent h)" by blast
  qed simp_all
  moreover have "wf_bases ?r" using assms by (simp add: wf_reg_def wf_bases_def)
  moreover have "current_label ?r j = current_label r j" for j
    by (simp add: current_label_eq split: option.split)
  then have "wf_labels ?r" using assms by (simp add: wf_reg_def wf_labels_def)
  ultimately show ?thesis by (simp add: wf_reg_def)
qed

lemma wf_open_ipc_client [wf_intros]:
  assumes "wf_reg r" and "open_ipc_client d p r = (out, r', e)"
  shows "wf_reg r'"
proof -
  let ?r = "r\<lparr>next_ipc_client_seq := saturating_add (next_ipc_client_seq r) 1\<rparr>"
  have wf: "wf_reg ?r" by (rule wf_seq_change [OF assms(1)])
  show ?thesis
  proof (cases "dep_connect d (IpcEndpoint p)")
    case (Inl err)
    with assms(2) wf show ?thesis
      by (simp add: open_ipc_client_def alloc_ipc_client_seq_def fail_with_def Let_def)
  next
    case (Inr s)
    let ?h = "\<lparr>sh_state = new_connected (IpcClient (next_ipc_client_seq r)) (Some (IpcRemotePath p)),
      sh_stream = s, sh_read_task = dep_task d, sh_parent = None\<rparr>"
    obtain r1 e1 where ins: "insert_stream ?h ?r = (r1, e1)" by (cases "insert_stream ?h ?r")
    with assms(2) Inr have "r' = r1" by (simp add: open_ipc_client_def alloc_ipc_client_seq_def Let_def)
    then show ?thesis using wf_new_stream [OF wf ins refl] by (simp add: slot_ok_def)
  qed
qed

section \<open>Commands\<close>

lemma wf_close_connection [wf_intros]:
  "wf_reg r \<Longrightarrow> close_connection tok r = (out, r', e) \<Longrightarrow> wf_reg r'"
  by (auto simp: close_connection_def fail_with_def Let_def
      split: sum.splits if_splits prod.splits dest: wf_drop_server wf_drop_stream)

lemma wf_send_command [wf_intros]:
  "wf_reg r \<Longrightarrow> send_command d tok bytes r = (out, r', e) \<Longrightarrow> wf_reg r'"
  by (auto simp: send_command_def fail_with_def split: sum.splits prod.splits dest: wf_send_bytes)

lemma wf_label_command [wf_intros]:
  "wf_reg r \<Longrightarrow> label_command tok name r = (out, r', e) \<Longrightarrow> wf_reg r'"
  by (auto simp: label_command_def cmd_label_def fail_with_def
      split: sum.splits prod.splits dest: wf_apply_label)

lemma wf_handle_command [wf_intros]:
  "wf_reg r \<Longrightarrow> handle_command d c r = (out, r', e) \<Longrightarrow> wf_reg r'"
  by (cases c) (auto intro: wf_intros)

lemma wf_handle_event [wf_intros]: "wf_reg r \<Longrightarrow> handle_event ev r = (r', e) \<Longrightarrow> wf_reg r'"
  by (cases ev) (auto simp: on_closed_event_def Let_def split: if_splits prod.splits dest: wf_drop_stream)

section \<open>Accepted connections\<close>

lemma allocate_id_None_iff: "allocate_id mk b par r = None \<longleftrightarrow> vget r par = None"
proof (cases "vget r par")
  case None
  then show ?thesis by (simp add: allocate_id_def)
next
  case (Some srv)
  let ?r1 = "r\<lparr>servers := im_update par (set_base b None) (servers r)\<rparr>"
  have kept: "vget r2 par \<noteq> None" if ren: "rename_accepted_tcp old new ?r1 = (r2, e)" for old new r2 e
  proof (cases "sget ?r1 old")
    case None
    with ren have "r2 = ?r1" by (simp add: rename_absent)
    with Some show ?thesis by (simp add: im_get_update)
  next
    case h: (Some h)
    have "key par \<in> im_dom (servers r)" using Some im_get_None_iff [of "servers r" par] by auto
    then show ?thesis using rename_views(7) [OF ren h] by (simp add: im_get_None_iff)
  qed
  show ?thesis
  proof (cases "sv_base_no_suffix srv b")
    case None
    with Some show ?thesis by (simp add: allocate_id_def Let_def)
  next
    case (Some old)
    obtain r2 e where ren: "rename_accepted_tcp old (mk (Some 1)) ?r1 = (r2, e)"
      by (cases "rename_accepted_tcp old (mk (Some 1)) ?r1")
    with kept [OF ren] Some \<open>vget r par = Some srv\<close> show ?thesis
      by (auto simp: allocate_id_def Let_def)
  qed
qed

text \<open>
  A path can be spelled in several ways that Rust compares as equal. An accept loop reports its
  connections under the spelling its server was opened with; \<open>well_addressed\<close> says that an
  accepted IPC connection still finds that spelling at the registered server.
\<close>

fun well_addressed :: "'s deps \<times> 's registry_input \<Rightarrow> 's registry \<Rightarrow> bool" where
  "well_addressed (d, Accepted (IpcServer p) (AcceptedIpc _ _ _) _ _) r =
     (case im_get (servers r) (IpcServer p) of Some srv \<Rightarrow> sv_ipc_path srv = Some p | None \<Rightarrow> True)"
| "well_addressed _ r = True"

fun shapes_match :: "connection_id \<Rightarrow> connection_id \<Rightarrow> bool" where
  "shapes_match (TcpServer _) (AcceptedTcp _ _ _) = True"
| "shapes_match (IpcServer _) (AcceptedIpc _ _ _) = True"
| "shapes_match _ _ = False"

lemma slot_ok_mk:
  "(\<And>d. slot (mk d) = Some (par, b, d)) \<Longrightarrow> \<not> is_server (mk d)"
  using slot_is_server by blast

lemma wf_allocate_insert:
  assumes wf: "wf_reg r" and srv: "vget r par = Some srv" "sv_ipc_path srv = raw_path par"
    and mk: "\<And>d. slot (mk d) = Some (par, b, d)"
    and al: "allocate_id mk b par r = Some (final, ev, r1, e1)"
    and ins: "insert_stream \<lparr>sh_state = new_connected final peer, sh_stream = s, sh_read_task = t,
      sh_parent = Some par\<rparr> r1 = (r2, e2)"
  shows "wf_reg r2"
proof -
  from wf srv mk obtain d ev' r' where
    "allocate_id mk b par r = Some (mk d, ev', r', [])" "wf_reg r'" "slot_ok r' (mk d) (Some par)"
    by (rule allocate_id_wf)
  with al have "final = mk d" "wf_reg r1" "slot_ok r1 final (Some par)" by simp_all
  with wf_new_stream [OF _ ins refl] slot_ok_mk [of mk, OF mk] show ?thesis by simp
qed

lemma tcp_server_path: "wf_reg r \<Longrightarrow> vget r (TcpServer p) = Some srv \<Longrightarrow> sv_ipc_path srv = None"
  using wf_core_server [of r "TcpServer p" srv]
  by (auto simp: wf_reg_def server_entry_ok_def same_id_path_free)

lemma allocate_final_match:
  assumes "shapes_match par child"
  obtains mk b where "\<And>d. slot (mk d) = Some (par, b, d)"
    and "allocate_final par child r = Allocated (allocate_id mk b par r)"
proof (cases par)
  case (TcpServer p)
  with assms obtain p' q x where "child = AcceptedTcp p' q x" by (cases child) auto
  then show thesis
    using that [of "AcceptedTcp p q" "show_word p @ ''.'' @ show_word q"] TcpServer
    by (simp add: allocate_accepted_tcp_id_eq)
next
  case (IpcServer p)
  with assms obtain p' q x where "child = AcceptedIpc p' q x" by (cases child) auto
  then show thesis
    using that [of "AcceptedIpc p q" "p @ ''.'' @ show_i32 q"] IpcServer
    by (simp add: allocate_accepted_ipc_id_eq)
qed (use assms in simp_all)

lemma handle_accepted_match:
  assumes ha: "handle_accepted d par child peer s r = Some (r', e)" and "shapes_match par child"
  obtains mk b final ev r1 e1 e2 where "\<And>d. slot (mk d) = Some (par, b, d)"
    and "allocate_id mk b par r = Some (final, ev, r1, e1)"
    and "insert_stream \<lparr>sh_state = new_connected final (Some peer), sh_stream = s,
      sh_read_task = dep_task d, sh_parent = Some par\<rparr> r1 = (r', e2)"
    and "e = e1 @ rename_line ev @ [SpawnRead (dep_task d) final] @ e2 @
      [Display (''['' @ show_id final @ ''] ACCEPT peer='' @ render_peer peer)]"
proof -
  obtain mk b where mk: "\<And>d. slot (mk d) = Some (par, b, d)"
    and al: "allocate_final par child r = Allocated (allocate_id mk b par r)"
    by (rule allocate_final_match [OF assms(2), where r = r]) blast
  show thesis
  proof (cases "allocate_id mk b par r")
    case None
    with ha al show thesis by (simp add: handle_accepted_def)
  next
    case (Some t)
    obtain final ev r1 e1 where t: "t = (final, ev, r1, e1)" by (cases t)
    let ?h = "\<lparr>sh_state = new_connected final (Some peer), sh_stream = s,
      sh_read_task = dep_task d, sh_parent = Some par\<rparr>"
    obtain r2 e2 where ins: "insert_stream ?h r1 = (r2, e2)" by (cases "insert_stream ?h r1")
    from ha al Some t ins have "r' = r2" and
      "e = e1 @ rename_line ev @ [SpawnRead (dep_task d) final] @ e2 @
        [Display (''['' @ show_id final @ ''] ACCEPT peer='' @ render_peer peer)]"
      by (simp_all add: handle_accepted_def Let_def)
    with mk Some t ins that show thesis by blast
  qed
qed

lemma handle_accepted_mismatch:
  "\<not> shapes_match par child \<Longrightarrow> handle_accepted d par child peer s r =
     Some (r, [Display (''['' @ show_id par @ ''] ERROR internal: mismatched accepted id shape''),
               DropStream s])"
  by (cases par; cases child) (simp_all add: handle_accepted_def)

lemma addressed_path:
  assumes wf: "wf_reg r" and ok: "well_addressed (d, Accepted par child peer s) r"
    and match: "shapes_match par child" and srv: "vget r par = Some srv"
  shows "sv_ipc_path srv = raw_path par"
proof (cases par)
  case (TcpServer p)
  with tcp_server_path [OF wf] srv show ?thesis by simp
next
  case (IpcServer p)
  with match obtain p' q x where "child = AcceptedIpc p' q x" by (cases child) auto
  with ok srv IpcServer show ?thesis by simp
qed (use match in simp_all)

lemma wf_handle_accepted:
  assumes wf: "wf_reg r" and ok: "well_addressed (d, Accepted par child peer s) r"
    and ha: "handle_accepted d par child peer s r = Some (r', e)"
  shows "wf_reg r'"
proof (cases "shapes_match par child")
  case True
  from ha True obtain mk b final ev r1 e1 e2 where mk: "\<And>d. slot (mk d) = Some (par, b, d)"
    and al: "allocate_id mk b par r = Some (final, ev, r1, e1)"
    and ins: "insert_stream \<lparr>sh_state = new_connected final (Some peer), sh_stream = s,
      sh_read_task = dep_task d, sh_parent = Some par\<rparr> r1 = (r', e2)"
    by (rule handle_accepted_match) blast
  from al obtain srv where srv: "vget r par = Some srv"
    by (metis allocate_id_None_iff not_None_eq)
  have "sv_ipc_path srv = raw_path par" by (rule addressed_path [OF wf ok True srv])
  from wf_allocate_insert [OF wf srv this mk al ins] show ?thesis .
next
  case False
  with ha wf show ?thesis by (simp add: handle_accepted_mismatch)
qed

lemma handle_accepted_None_iff:
  "handle_accepted d par child peer s r = None \<longleftrightarrow> shapes_match par child \<and> vget r par = None"
proof (cases "shapes_match par child")
  case True
  obtain mk b where al: "allocate_final par child r = Allocated (allocate_id mk b par r)"
    by (rule allocate_final_match [OF True, where r = r])
  have "handle_accepted d par child peer s r = None \<longleftrightarrow> allocate_id mk b par r = None"
    by (simp add: handle_accepted_def al Let_def split: option.split prod.split)
  with True show ?thesis by (simp add: allocate_id_None_iff)
qed (simp add: handle_accepted_mismatch)

section \<open>Inputs and runs\<close>

lemma wf_handle_input:
  assumes "wf_reg r" and "well_addressed (d, x) r" and "handle_input d x r = Some (r', e, go)"
  shows "wf_reg r'"
  using assms
  by (cases x) (auto simp: Let_def split: prod.splits
      dest: wf_handle_command wf_handle_event wf_handle_accepted)

definition registry_step :: "'s deps \<times> 's registry_input \<Rightarrow> 's registry \<Rightarrow> 's registry option" where
  "registry_step x r = map_option fst (handle_input (fst x) (snd x) r)"

interpretation reg: step_invariant registry_step well_addressed wf_reg
proof
  fix r r' :: "'a registry" and x
  assume wf: "wf_reg r" and ok: "well_addressed x r" and st: "registry_step x r = Some r'"
  obtain d i where x: "x = (d, i)" by (cases x)
  from st x obtain e go where "handle_input d i r = Some (r', e, go)" by (auto simp: registry_step_def)
  with wf ok x show "wf_reg r'" by (auto intro: wf_handle_input)
qed

text \<open>What \<open>input_loop\<close> leaves is what the steps leave, up to the \<open>Shutdown\<close> that ends it.\<close>

lemma wf_input_loop:
  "wf_reg r \<Longrightarrow> good_run registry_step well_addressed xs r \<Longrightarrow> input_loop xs r = Some (r', e) \<Longrightarrow> wf_reg r'"
proof (induction xs r arbitrary: r' e rule: input_loop.induct)
  case (2 d x xs r)
  then obtain r1 e1 go where hi: "handle_input d x r = Some (r1, e1, go)"
    by (cases "handle_input d x r") auto
  have wf1: "wf_reg r1" using 2(2,3) by (intro wf_handle_input [OF _ _ hi]) simp_all
  show ?case
  proof (cases go)
    case True
    have "good_run registry_step well_addressed xs r1"
      using 2(3) hi by (simp add: registry_step_def [abs_def])
    moreover obtain e2 where "input_loop xs r1 = Some (r', e2)"
      using 2(4) hi True by (cases "input_loop xs r1") auto
    ultimately show ?thesis using 2(1) hi True wf1 by blast
  next
    case False
    with 2(4) hi wf1 show ?thesis by simp
  qed
qed simp

section \<open>Shutdown\<close>

abbreviation stream_effects :: "'s stream_handle \<Rightarrow> 's effect set" where
  "stream_effects h \<equiv> {AbortTask (sh_read_task h), DropStream (sh_stream h)}"

definition server_effects :: "'s registry \<Rightarrow> server_handle \<Rightarrow> 's effect set" where
  "server_effects r s =
     {AbortTask (sv_accept_task s)} \<union> {RemoveFile p |p. sv_ipc_path s = Some p} \<union>
     (\<Union>h \<in> {h. \<exists>c. is_member c (sv_children s) \<and> sget r c = Some h}. stream_effects h)"

lemma drop_streams_effects:
  "drop_streams cs r = (r', e) \<Longrightarrow>
     set e = (\<Union>h \<in> {h. \<exists>c. is_member c cs \<and> sget r c = Some h}. stream_effects h)"
proof (induction cs arbitrary: r r' e)
  case (Cons c cs)
  obtain r1 e1 where 1: "drop_stream c r = (r1, e1)" by (cases "drop_stream c r")
  obtain r2 e2 where 2: "drop_streams cs r1 = (r2, e2)" by (cases "drop_streams cs r1")
  have e: "e = e1 @ e2" using Cons.prems 1 2 by simp
  have e1: "set e1 = (\<Union>h \<in> {h. sget r c = Some h}. stream_effects h)"
    by (cases "sget r c") (auto simp: drop_stream_views(8) [OF 1])
  have mem: "is_member d (c # cs) \<longleftrightarrow> same_id c d \<or> is_member d cs" for d
    by (auto simp: is_member_def)
  have split: "{h. \<exists>d. is_member d (c # cs) \<and> sget r d = Some h} =
     {h. sget r c = Some h} \<union> {h. \<exists>d. is_member d cs \<and> sget r1 d = Some h}"
    (is "?A = ?B \<union> ?C")
  proof (intro equalityI subsetI)
    fix h
    assume "h \<in> ?A"
    then obtain d where d: "same_id c d \<or> is_member d cs" "sget r d = Some h" by (auto simp: mem)
    show "h \<in> ?B \<union> ?C"
    proof (cases "same_id c d")
      case True
      with d im_get_same [OF True, of "streams r"] show ?thesis by simp
    next
      case False
      with d have "sget r1 d = Some h" by (simp add: drop_stream_views(1) [OF 1])
      with d False show ?thesis by blast
    qed
  next
    fix h
    assume "h \<in> ?B \<union> ?C"
    then consider "sget r c = Some h" | d where "is_member d cs" "sget r1 d = Some h" by blast
    then show "h \<in> ?A"
    proof cases
      case 1
      then show ?thesis using mem [of c] same_id_refl by blast
    next
      case 2
      then have "sget r d = Some h" by (simp add: drop_stream_views(1) [OF 1] split: if_splits)
      with 2(1) show ?thesis using mem by blast
    qed
  qed
  show ?case
    by (simp only: e set_append Cons.IH [OF 2] e1 split UN_Un)
qed simp

lemma drop_server_effects:
  assumes "vget r p = Some s" and "drop_server p r = (r', e)"
  shows "set e = server_effects r s"
proof -
  let ?r1 = "r\<lparr>servers := im_remove p (servers r)\<rparr>"
  obtain r2 e2 where 2: "drop_streams (sv_children s) ?r1 = (r2, e2)"
    by (cases "drop_streams (sv_children s) ?r1")
  let ?u = "case sv_ipc_path s of Some q \<Rightarrow> [RemoveFile q] | None \<Rightarrow> []"
  from assms 2 have e: "e = [AbortTask (sv_accept_task s)] @ e2 @ ?u"
    by (simp add: drop_server_def Let_def)
  have u: "set ?u = {RemoveFile q |q. sv_ipc_path s = Some q}" by (cases "sv_ipc_path s") auto
  have "set e2 = (\<Union>h \<in> {h. \<exists>c. is_member c (sv_children s) \<and> sget r c = Some h}. stream_effects h)"
    using drop_streams_effects [OF 2] by simp
  with e u show ?thesis by (auto simp: server_effects_def)
qed

lemma Un_cong_right: "A \<union> C = B \<union> C \<Longrightarrow> (X \<union> A) \<union> (Y \<union> C) = (X \<union> B) \<union> (Y \<union> C)"
  by blast

text \<open>Dropping a server takes nothing from what dropping another one does afterwards.\<close>

lemma server_effects_after:
  assumes core: "wf_core r" and p: "vget r p = Some s" and dr: "drop_server p r = (r1, e1)"
  shows "server_effects r1 t \<union> server_effects r s = server_effects r t \<union> server_effects r s"
proof -
  note v = drop_server_views(1) [OF core p dr]
  let ?of = "\<lambda>r u. {h. \<exists>c. is_member c (sv_children u) \<and> sget r c = Some h}"
  have "?of r1 t \<union> ?of r s = ?of r t \<union> ?of r s" by (auto simp: v split: if_splits)
  then have "(\<Union>h\<in>?of r1 t. stream_effects h) \<union> (\<Union>h\<in>?of r s. stream_effects h) =
      (\<Union>h\<in>?of r t. stream_effects h) \<union> (\<Union>h\<in>?of r s. stream_effects h)"
    by (simp only: UN_Un [symmetric])
  then show ?thesis unfolding server_effects_def by (rule Un_cong_right)
qed

lemma is_member_Cons: "is_member d (p # ps) \<longleftrightarrow> same_id p d \<or> is_member d ps"
  by (auto simp: is_member_def)

lemma drop_servers_Cons:
  assumes "drop_servers (p # ps) r = (r', e)"
  obtains r1 e1 e2 where "drop_server p r = (r1, e1)" and "drop_servers ps r1 = (r', e2)"
    and "e = e1 @ e2"
  using assms by (auto split: prod.splits)

lemma wf_drop_servers [wf_intros]:
  "wf_reg r \<Longrightarrow> drop_servers ps r = (r', e) \<Longrightarrow> wf_reg r'"
proof (induction ps arbitrary: r e)
  case (Cons p ps)
  from Cons.prems(2) show ?case
    by (rule drop_servers_Cons) (use Cons wf_drop_server in blast)
qed simp

lemma drop_servers_dom:
  "wf_reg r \<Longrightarrow> drop_servers ps r = (r', e) \<Longrightarrow> im_dom (servers r') = im_dom (servers r) - key ` set ps"
proof (induction ps arbitrary: r e)
  case (Cons p ps)
  from Cons.prems(2) obtain r1 e1 e2 where 1: "drop_server p r = (r1, e1)"
    and 2: "drop_servers ps r1 = (r', e2)" by (rule drop_servers_Cons)
  have "im_dom (servers r1) = im_dom (servers r) - {key p}"
  proof (cases "vget r p")
    case None
    with 1 show ?thesis by (simp add: drop_server_absent im_get_None_iff)
  next
    case (Some s)
    with drop_server_views(7) [OF _ Some 1] Cons.prems(1) show ?thesis by (simp add: wf_reg_def)
  qed
  with Cons.IH [OF wf_drop_server [OF Cons.prems(1) 1] 2] show ?case by auto
qed simp

definition servers_of :: "connection_id list \<Rightarrow> 's registry \<Rightarrow> server_handle set" where
  "servers_of ps r = {s. \<exists>p. is_member p ps \<and> vget r p = Some s}"

lemma servers_of_Cons_absent: "vget r p = None \<Longrightarrow> servers_of (p # ps) r = servers_of ps r"
  unfolding servers_of_def is_member_Cons using im_get_same by (metis option.distinct(1))

lemma servers_of_Cons:
  assumes core: "wf_core r" and p: "vget r p = Some s" and dr: "drop_server p r = (r1, e)"
  shows "servers_of (p # ps) r = insert s (servers_of ps r1)"
proof (intro set_eqI iffI)
  fix t
  assume "t \<in> servers_of (p # ps) r"
  then obtain q where q: "same_id p q \<or> is_member q ps" "vget r q = Some t"
    by (auto simp: servers_of_def is_member_Cons)
  show "t \<in> insert s (servers_of ps r1)"
  proof (cases "same_id p q")
    case True
    with p q im_get_same [OF True, of "servers r"] show ?thesis by simp
  next
    case False
    with q have "vget r1 q = Some t" by (simp add: drop_server_views(2) [OF core p dr])
    with False q show ?thesis by (auto simp: servers_of_def)
  qed
next
  fix t
  assume "t \<in> insert s (servers_of ps r1)"
  then consider "t = s" | q where "is_member q ps" "vget r1 q = Some t" by (auto simp: servers_of_def)
  then show "t \<in> servers_of (p # ps) r"
  proof cases
    case 1
    with p show ?thesis unfolding servers_of_def is_member_Cons using same_id_refl by blast
  next
    case 2
    then have "vget r q = Some t" by (simp add: drop_server_views(2) [OF core p dr] split: if_splits)
    with 2(1) show ?thesis unfolding servers_of_def is_member_Cons by blast
  qed
qed

lemma drop_servers_effects:
  "wf_reg r \<Longrightarrow> drop_servers ps r = (r', e) \<Longrightarrow> set e = (\<Union>s\<in>servers_of ps r. server_effects r s)"
proof (induction ps arbitrary: r e)
  case Nil
  then show ?case by (simp add: servers_of_def)
next
  case (Cons p ps)
  from Cons.prems(2) obtain r1 e1 e2 where 1: "drop_server p r = (r1, e1)"
    and 2: "drop_servers ps r1 = (r', e2)" and e: "e = e1 @ e2" by (rule drop_servers_Cons)
  have core: "wf_core r" using Cons.prems(1) by (simp add: wf_reg_def)
  note IH = Cons.IH [OF wf_drop_server [OF Cons.prems(1) 1] 2]
  show ?case
  proof (cases "vget r p")
    case None
    with 1 have "r1 = r" "e1 = []" by (simp_all add: drop_server_absent)
    with IH e None show ?thesis by (simp add: servers_of_Cons_absent)
  next
    case (Some s)
    have "set e = server_effects r s \<union> (\<Union>t\<in>servers_of ps r1. server_effects r1 t)"
      using drop_server_effects [OF Some 1] IH e by simp
    also have "\<dots> = server_effects r s \<union> (\<Union>t\<in>servers_of ps r1. server_effects r1 t \<union> server_effects r s)"
      by auto
    also have "\<dots> = server_effects r s \<union> (\<Union>t\<in>servers_of ps r1. server_effects r t \<union> server_effects r s)"
      by (simp only: server_effects_after [OF core Some 1])
    also have "\<dots> = (\<Union>t\<in>insert s (servers_of ps r1). server_effects r t)" by auto
    finally show ?thesis by (simp only: servers_of_Cons [OF core Some 1])
  qed
qed

text \<open>A stream that goes with the servers is a child of one of them.\<close>

lemma drop_servers_sget:
  assumes "wf_reg r" and "drop_servers ps r = (r', e)"
  shows "sget r' c = Some h \<Longrightarrow> sget r c = Some h"
    and "sget r c = Some h \<Longrightarrow> sget r' c = Some h \<or> stream_effects h \<subseteq> set e"
  using assms
proof (atomize (full), induction ps arbitrary: r e)
  case Nil
  then show ?case by simp
next
  case (Cons p ps)
  from Cons.prems(2) obtain r1 e1 e2 where 1: "drop_server p r = (r1, e1)"
    and 2: "drop_servers ps r1 = (r', e2)" and e: "e = e1 @ e2" by (rule drop_servers_Cons)
  have core: "wf_core r" using Cons.prems(1) by (simp add: wf_reg_def)
  have "(sget r1 c = Some h \<longrightarrow> sget r c = Some h) \<and>
      (sget r c = Some h \<longrightarrow> sget r1 c = Some h \<or> stream_effects h \<subseteq> set e1)"
  proof (cases "vget r p")
    case None
    with 1 show ?thesis by (simp add: drop_server_absent)
  next
    case (Some s)
    have "stream_effects h \<subseteq> set e1" if "is_member c (sv_children s)" "sget r c = Some h"
      unfolding drop_server_effects [OF Some 1] server_effects_def using that by blast
    then show ?thesis by (simp add: drop_server_views(1) [OF core Some 1])
  qed
  with Cons.IH wf_drop_server [OF Cons.prems(1) 1] 2 e show ?case by auto
qed

lemma im_dom_empty: "im_dom m = {} \<longleftrightarrow> m = []"
  by (simp add: im_dom_def)

lemma is_member_keys: "is_member i (im_keys m) \<longleftrightarrow> im_get m i \<noteq> None"
  by (induction m) (auto simp: is_member_Cons)

lemma drop_streams_servers:
  assumes "servers r = []" and "drop_streams cs r = (r', e)"
  shows "servers r' = []"
proof -
  have "im_dom (servers r') = {}" unfolding drop_streams_views(6) [OF assms(2)] assms(1) by simp
  then show ?thesis unfolding im_dom_empty .
qed

lemma drop_streams_all:
  assumes "drop_streams (im_keys (streams r)) r = (r', e)"
  shows "streams r' = []"
proof -
  have "sget r' j = None" for j
    using is_member_keys [of j "streams r"]
    by (auto simp: drop_streams_views(1) [OF assms] is_member_def)
  then have "im_dom (streams r') = {}" using im_get_None_iff [of "streams r'"] im_dom_def
    by (metis (no_types, lifting) equals0I im_get_None_iff image_iff)
  then show ?thesis by (simp add: im_dom_empty)
qed

lemma drop_servers_all:
  assumes "wf_reg r" and "drop_servers (im_keys (servers r)) r = (r', e)"
  shows "servers r' = []"
proof -
  have "im_dom (servers r') = {}"
    unfolding drop_servers_dom [OF assms] by (auto simp: im_dom_def)
  then show ?thesis unfolding im_dom_empty .
qed

definition all_effects :: "'s registry \<Rightarrow> 's effect set" where
  "all_effects r =
     {AbortTask (sv_accept_task s) |p s. vget r p = Some s} \<union>
     {RemoveFile q |p s q. vget r p = Some s \<and> sv_ipc_path s = Some q} \<union>
     {AbortTask (sh_read_task h) |i h. sget r i = Some h} \<union>
     {DropStream (sh_stream h) |i h. sget r i = Some h}"

lemma server_effects_sub: "vget r p = Some s \<Longrightarrow> server_effects r s \<subseteq> all_effects r"
  unfolding server_effects_def all_effects_def by auto

lemma shutdown_facts:
  assumes wf: "wf_reg r" and sd: "shutdown r = (r', e)"
  shows "streams r' = []" and "servers r' = []" and "set e = all_effects r" and "wf_reg r'"
proof -
  obtain r1 e1 where 1: "drop_servers (im_keys (servers r)) r = (r1, e1)"
    by (cases "drop_servers (im_keys (servers r)) r")
  obtain r2 e2 where 2: "drop_streams (im_keys (streams r1)) r1 = (r2, e2)"
    by (cases "drop_streams (im_keys (streams r1)) r1")
  from sd 1 2 have r': "r' = r2" and e: "e = e1 @ e2" by (simp_all add: shutdown_def)
  have wf1: "wf_reg r1" by (rule wf_drop_servers [OF wf 1])
  show "streams r' = []" using drop_streams_all [OF 2] r' by simp
  show "servers r' = []" using drop_streams_servers [OF drop_servers_all [OF wf 1] 2] r' by simp
  have s1: "set e1 = (\<Union>s\<in>{s. \<exists>p. vget r p = Some s}. server_effects r s)"
    using drop_servers_effects [OF wf 1]
    by (auto simp: servers_of_def is_member_keys)
  have s2: "set e2 = (\<Union>h\<in>{h. \<exists>c. sget r1 c = Some h}. stream_effects h)"
    using drop_streams_effects [OF 2] by (auto simp: is_member_keys)
  have "stream_effects h \<subseteq> all_effects r" if "sget r1 c = Some h" for c h
    using drop_servers_sget(1) [OF wf 1 that] by (auto simp: all_effects_def)
  then have "set e2 \<subseteq> all_effects r" unfolding s2 by blast
  have "set e1 \<subseteq> all_effects r" unfolding s1 using server_effects_sub by fast
  have "stream_effects h \<subseteq> set e" if "sget r c = Some h" for c h
    using drop_servers_sget(2) [OF wf 1 that]
  proof
    assume "sget r1 c = Some h"
    then have "stream_effects h \<subseteq> set e2" unfolding s2 by blast
    then show ?thesis by (simp add: e)
  qed (auto simp: e)
  then have "AbortTask (sh_read_task h) \<in> set e \<and> DropStream (sh_stream h) \<in> set e"
    if "sget r c = Some h" for c h using that by blast
  moreover have "AbortTask (sv_accept_task s) \<in> set e" "sv_ipc_path s = Some q \<Longrightarrow> RemoveFile q \<in> set e"
    if "vget r p = Some s" for p s q
    using that by (auto simp: e s1 server_effects_def)
  ultimately have "all_effects r \<subseteq> set e" unfolding all_effects_def by blast
  with \<open>set e2 \<subseteq> all_effects r\<close> \<open>set e1 \<subseteq> all_effects r\<close> show "set e = all_effects r"
    by (auto simp: e)
  show "wf_reg r'"
    using drop_streams_all [OF 2] drop_streams_servers [OF drop_servers_all [OF wf 1] 2] r'
    by (simp add: wf_reg_def wf_core_def wf_slots_def wf_bases_def wf_labels_def linked_def
        current_label_eq)
qed

end
