(* ===== verification/Samples.thy ===== *)
theory Samples
  imports Runtime_Facts
begin

text \<open>
  A concrete registry, reached by a run of the registry task, at which the properties with
  hypotheses are applied. Streams are the bytes written to them so far; a stream that starts with
  255 refuses to be written.
\<close>

definition sample_io :: "u8 list stream_ops" where
  "sample_io =
     \<lparr>io_write_all = (\<lambda>s bytes. if s \<noteq> [] \<and> hd s = 255 then (Some ''broken pipe'', s) else (None, s @ bytes)),
      io_flush = (\<lambda>s. (None, s))\<rparr>"

definition sample_deps :: "u8 list deps" where
  "sample_deps =
     \<lparr>dep_connect = (\<lambda>_. Ok []), dep_bind = (\<lambda>e. (Ok 7, case e of TcpServerEndpoint _ \<Rightarrow> [] | IpcServerEndpoint p \<Rightarrow> [p])), dep_task = 3, dep_io = sample_io\<rparr>"

definition sample_inputs :: "(u8 list deps \<times> u8 list registry_input) list" where
  "sample_inputs = map (Pair sample_deps)
     [Command (OpenTcpServer 80) True,
      Command (OpenIpcServer ''/s'') True,
      Accepted (TcpServer 80) (AcceptedTcp 80 5 None) (TcpSocket ''h:5'') [],
      Accepted (TcpServer 80) (AcceptedTcp 80 6 None) (TcpSocket ''h:6'') [255],
      Command (OpenIpcClient ''/s'') True,
      Command (Label ''80.5'' ''alice'') True]"

definition sample :: "u8 list registry" where
  "sample = the (run_steps registry_step sample_inputs new_registry)"

lemma sample_run: "run_steps registry_step sample_inputs new_registry = Some sample"
proof -
  have "run_steps registry_step sample_inputs new_registry \<noteq> None" by code_simp
  then show ?thesis by (auto simp: sample_def)
qed

lemma sample_good: "good_run registry_step well_addressed sample_inputs new_registry"
  by code_simp

lemma wf_sample: "wf_reg sample"
  by (rule reg.run_preserved [OF wf_reg_new sample_good sample_run])

lemma sample_streams:
  "im_keys (streams sample) = [AcceptedTcp 80 5 None, AcceptedTcp 80 6 None, IpcClient 1]"
  "im_keys (servers sample) = [TcpServer 80, IpcServer ''/s'']"
  by code_simp+

end
