(* ===== verification/Registry_Properties.thy ===== *)
theory Registry_Properties
  imports Samples Codec_Properties
begin

text \<open>
  What the registry promises: its invariant is kept by every input, a label that was set
  resolves, closing and dropping leave nothing behind, and what happens to colliding accepted
  connections.
\<close>

section \<open>The invariant\<close>

text \<open>C1: Every input keeps the invariant of the registry: commands, events, accepted connections
  that name the server by the path it was opened with, and the request to shut down.\<close>

theorem handle_input_wf:
  "wf_reg r \<Longrightarrow> well_addressed (d, x) r \<Longrightarrow> handle_input d x r = Some (r', e, go) \<Longrightarrow> wf_reg r'"
  by (rule wf_handle_input)

theorem handle_input_wf_witness:
  "\<exists>r' e go. handle_input sample_deps (Command (Close ''80'') True) sample = Some (r', e, go) \<and> wf_reg r'"
proof -
  obtain r' e go where hi: "handle_input sample_deps (Command (Close ''80'') True) sample = Some (r', e, go)"
    by (cases "handle_command sample_deps (Close ''80'') sample") auto
  from handle_input_wf [OF wf_sample _ hi] hi show ?thesis by auto
qed

text \<open>C2: The registry is well formed after every run from the empty registry.\<close>

theorem reachable_wf:
  "good_run registry_step well_addressed xs new_registry \<Longrightarrow>
   run_steps registry_step xs new_registry = Some r \<Longrightarrow> wf_reg r"
  by (rule reg.run_preserved [OF wf_reg_new])

theorem reachable_wf_witness: "\<exists>r. run_steps registry_step sample_inputs new_registry = Some r \<and> wf_reg r"
  using reachable_wf [OF sample_good sample_run] sample_run by blast

text \<open>An input makes the registry task panic exactly when it is an accepted connection, of the
  shape its parent accepts, whose parent server is no longer registered. An accept task queues such
  an input whenever its server is closed between the accept and the turn of the registry.\<close>

lemma panic_iff:
  "handle_input d x r = None \<longleftrightarrow>
     (\<exists>par child peer s. x = Accepted par child peer s \<and> shapes_match par child \<and>
        \<not> im_contains (servers r) par)"
  by (cases x)
     (auto simp: handle_accepted_None_iff im_contains_def Let_def split: prod.splits)

section \<open>Labels\<close>

text \<open>C13: A label that has been set resolves to its connection, is what the connection is displayed
  as, and frees the connection's previous label; nothing else changes its label.\<close>

theorem label_resolves:
  assumes "wf_reg r" and "registered r i" and "apply_label i name r = (Ok (), r')"
  shows "resolve_id r' name parser = Ok i \<and> display_name r' i = name \<and>
     current_label r' j = (if same_id i j then Some name else current_label r j) \<and>
     (current_label r i = Some old \<and> old \<noteq> name \<longrightarrow> labels r' old = None)"
proof -
  have core: "wf_core r" using assms(1) by (simp add: wf_reg_def)
  have free: "same_id ex i" if "labels r name = Some ex" for ex
    using assms(3) that by (auto simp: apply_label_def split: if_splits)
  note v = apply_label_ok_views [OF assms(2) free core assms(3)]
  have reg': "registered r' i" using assms(2) by (auto simp: im_contains_def v split: if_splits)
  have cl: "current_label r' k = (if same_id i k then Some name else current_label r k)" for k
    using assms(2) im_get_same [of i k "streams r"] im_get_same [of i k "servers r"]
    by (cases "same_id i k")
       (auto simp: current_label_eq v im_contains_def split: option.splits)
  have "display_name r' i = name"
    using cl [of i] reg'
    by (auto simp: display_name_def current_label_def stream_label_def im_contains_def
        split: if_splits option.splits)
  moreover have "resolve_id r' name parser = Ok i" by (simp add: resolve_id_def v)
  ultimately show ?thesis using cl by (simp add: v)
qed

theorem label_resolves_witness:
  "\<exists>r'. apply_label (AcceptedTcp 80 5 None) ''bob'' sample = (Ok (), r') \<and>
     resolve_id r' ''bob'' default_token_parser = Ok (AcceptedTcp 80 5 None) \<and>
     labels r' ''alice'' = None"
proof -
  have reg: "registered sample (AcceptedTcp 80 5 None)" by code_simp
  have "fst (apply_label (AcceptedTcp 80 5 None) ''bob'' sample) = Ok ()" by code_simp
  then obtain r' where ap: "apply_label (AcceptedTcp 80 5 None) ''bob'' sample = (Ok (), r')"
    by (metis prod.collapse)
  have "current_label sample (AcceptedTcp 80 5 None) = Some ''alice''" by code_simp
  with label_resolves [OF wf_sample reg ap, of default_token_parser _ "''alice''"] ap show ?thesis by auto
qed

text \<open>C14: Setting a label fails exactly for a label that leads to another connection, or for an
  identifier that is not registered, with the matching error, and then changes nothing.\<close>

theorem apply_label_total:
  "fst (apply_label i name r) =
     (case labels r name of
        Some ex \<Rightarrow> if same_id ex i then (if registered r i then Ok () else Err (UnknownId (show_id i)))
                   else Err (LabelAlreadyInUse name)
      | None \<Rightarrow> if registered r i then Ok () else Err (UnknownId (show_id i))) \<and>
   (is_ok (fst (apply_label i name r)) \<or> snd (apply_label i name r) = r)"
proof -
  consider (taken) ex where "labels r name = Some ex" "\<not> same_id ex i"
    | (unknown) "\<not> registered r i" "\<And>ex. labels r name = Some ex \<Longrightarrow> same_id ex i"
    | (ok) "registered r i" "\<And>ex. labels r name = Some ex \<Longrightarrow> same_id ex i"
    by blast
  then show ?thesis
    by cases (auto simp: apply_label_taken apply_label_unknown apply_label_ok split: option.splits)
qed

section \<open>Closing\<close>

text \<open>C11: Closing a server removes the server and exactly the streams whose parent it is; every
  other stream and server stays as it was.\<close>

theorem drop_server_cascade:
  assumes "wf_reg r" and "im_contains (servers r) p" and "drop_server p r = (r', e)"
  shows "im_get (servers r') q = (if same_id p q then None else im_get (servers r) q) \<and>
     im_get (streams r') c =
       (case im_get (streams r) c of
          None \<Rightarrow> None
        | Some h \<Rightarrow> if has_parent p h then None else Some h)"
proof -
  have core: "wf_core r" using assms(1) by (simp add: wf_reg_def)
  from assms(2) obtain s where s: "vget r p = Some s" by (auto simp: im_contains_def)
  note v = drop_server_views [OF core s assms(3)]
  show ?thesis
    using wf_core_child [OF core s, of c] by (auto simp: v split: option.split)
qed

theorem drop_server_cascade_witness:
  "\<exists>r' e. drop_server (TcpServer 80) sample = (r', e) \<and>
     im_get (streams r') (AcceptedTcp 80 5 None) = None \<and>
     im_get (streams r') (IpcClient 1) = im_get (streams sample) (IpcClient 1) \<and>
     im_get (streams r') (IpcClient 1) \<noteq> None"
proof -
  obtain r' e where dr: "drop_server (TcpServer 80) sample = (r', e)" by (cases "drop_server (TcpServer 80) sample")
  have here: "im_contains (servers sample) (TcpServer 80)" by code_simp
  have par: "case im_get (streams sample) (AcceptedTcp 80 5 None) of None \<Rightarrow> False
     | Some h \<Rightarrow> sh_parent h = Some (TcpServer 80)" by code_simp
  have cl: "case im_get (streams sample) (IpcClient 1) of None \<Rightarrow> False
     | Some h \<Rightarrow> sh_parent h = None" by code_simp
  from drop_server_cascade [OF wf_sample here dr, of _ "AcceptedTcp 80 5 None"]
    drop_server_cascade [OF wf_sample here dr, of _ "IpcClient 1"] par cl dr
  show ?thesis by (auto simp: has_parent_def split: option.splits)
qed

lemma im_remove_insert_absent: "im_get m i = None \<Longrightarrow> im_remove i (im_insert i v m) = m"
proof -
  assume a: "im_get m i = None"
  have "filter (\<lambda>e. \<not> same_id (fst e) i) m = m"
    using im_remove_absent [OF a] by (simp add: im_remove_filter)
  then show ?thesis by (simp add: im_insert_absent [OF a] im_remove_filter)
qed

text \<open>C29: Opening a TCP server on a free port and closing it again by the port gives the registry
  back as it was, with the accept task aborted.\<close>

theorem open_close_tcp_server:
  assumes "open_tcp_server d p r = (out, r1, e1)" and "success out" and "labels r (show_word p) = None"
  shows "close_connection (show_word p) r1 =
     (outcome_ok (''closed server '' @ show_word p @ '' and all its children''), r,
      [AbortTask (dep_task d), Display (''['' @ show_word p @ ''] CLOSED'')])"
proof -
  let ?i = "TcpServer p"
  from assms(1,2) have free: "vget r ?i = None" "sget r ?i = None"
    by (auto simp: open_tcp_server_def Let_def fail_with_def outcome_err_def im_contains_def split: if_splits)
  with assms(1,2) obtain al where
    r1: "r1 = r\<lparr>servers := im_insert ?i (new_server ?i (dep_task d) None) (servers r)\<rparr>"
    by (auto simp: open_tcp_server_def Let_def fail_with_def outcome_err_def im_contains_def
        start_server_def split: sum.splits)
  have srv: "vget r1 ?i = Some (new_server ?i (dep_task d) None)" by (simp add: r1)
  then have "resolve_id r1 (show_word p) default_token_parser = Ok ?i"
    using assms(3) by (simp add: resolve_id_def parse_shown_tcp_server im_contains_def r1)
  moreover have "drop_server ?i r1 = (r, [AbortTask (dep_task d)])"
    unfolding drop_server_def srv
    by (simp add: new_server_def new_connected_def r1 im_remove_insert_absent [OF free(1)])
  moreover have "im_contains (servers r1) ?i" using srv by (simp add: im_contains_def)
  ultimately show ?thesis by (simp add: close_connection_def)
qed

theorem open_close_tcp_server_witness:
  "\<exists>r1. snd (snd (close_connection (show_word (9 :: u16)) r1)) =
     [AbortTask 3, Display (''['' @ show_word (9 :: u16) @ ''] CLOSED'')] \<and>
     fst (snd (close_connection (show_word (9 :: u16)) r1)) = sample"
proof -
  obtain out r1 e1 where op: "open_tcp_server sample_deps 9 sample = (out, r1, e1)"
    by (cases "open_tcp_server sample_deps 9 sample") auto
  have "success (fst (open_tcp_server sample_deps 9 sample))" by code_simp
  then have ok: "success out" using op by simp
  have "labels sample (show_word (9 :: u16)) = None" by code_simp
  from open_close_tcp_server [OF op ok this] show ?thesis
    by (intro exI [of _ r1]) (simp add: sample_deps_def)
qed

section \<open>Shutting down\<close>

text \<open>C10: Shutting down leaves no server and no stream, and does exactly what has to be done for
  those there were: every accept and read task is aborted, every stream dropped, every socket file
  of an IPC server removed.\<close>

theorem shutdown_releases_all:
  "wf_reg r \<Longrightarrow> shutdown r = (r', e) \<Longrightarrow>
     streams r' = [] \<and> servers r' = [] \<and>
     set e = {AbortTask (sv_accept_task s) |p s. im_get (servers r) p = Some s} \<union>
       {RemoveFile q |p s q. im_get (servers r) p = Some s \<and> sv_ipc_path s = Some q} \<union>
       {AbortTask (sh_read_task h) |i h. im_get (streams r) i = Some h} \<union>
       {DropStream (sh_stream h) |i h. im_get (streams r) i = Some h}"
  using shutdown_facts [of r r' e] by (simp add: all_effects_def)

theorem shutdown_releases_all_witness:
  "streams (fst (shutdown sample)) = [] \<and> servers (fst (shutdown sample)) = [] \<and>
   RemoveFile ''/s'' \<in> set (snd (shutdown sample))"
proof -
  have "case im_get (servers sample) (IpcServer ''/s'') of None \<Rightarrow> False
     | Some s \<Rightarrow> sv_ipc_path s = Some ''/s''" by code_simp
  then show ?thesis
    using shutdown_releases_all [OF wf_sample, of "fst (shutdown sample)" "snd (shutdown sample)"]
    by (auto split: option.splits)
qed

text \<open>However its inputs end, the registry task that does not panic leaves nothing registered.\<close>

lemma run_registry_releases_all:
  assumes "good_run registry_step well_addressed xs new_registry"
    and "run_registry xs = Some (r, e)"
  shows "streams r = [] \<and> servers r = [] \<and> last e = LogInfo ''registry shutdown complete''"
proof -
  obtain r1 e1 where l: "input_loop xs new_registry = Some (r1, e1)"
    using assms(2) by (cases "input_loop xs new_registry") (auto simp: run_registry_def)
  obtain r2 e2 where s: "shutdown r1 = (r2, e2)" by (cases "shutdown r1")
  from assms(2) l s have "r = r2" "e = e1 @ e2 @ [LogInfo ''registry shutdown complete'']"
    by (auto simp: run_registry_def)
  with shutdown_facts(1,2) [OF wf_input_loop [OF wf_reg_new assms(1) l] s] show ?thesis by simp
qed

end
