(* ===== verification/Tame.thy ===== *)
theory Tame
  imports Runtime_Facts
begin

text \<open>
  Two more invariants of the registry, kept apart from \<open>wf_reg\<close> because they need none of it:
  the child sets have no duplicates (\<open>sets_ok\<close>), and the sequence numbers of the IPC clients lie
  below the next one to be given out (\<open>seq_ok\<close>). \<open>tame\<close> is what every operation but the opening
  of an IPC client satisfies; it gives both.
\<close>

definition sets_ok :: "'s registry \<Rightarrow> bool" where
  "sets_ok r \<longleftrightarrow> (\<forall>e\<in>set (servers r). is_distinct (sv_children (snd e)))"

definition seq_ok :: "'s registry \<Rightarrow> bool" where
  "seq_ok r \<longleftrightarrow>
     (\<forall>n. IpcClient n \<in> im_dom (streams r) \<longrightarrow> n < next_ipc_client_seq r \<or> next_ipc_client_seq r = - 1)"

text \<open>The socket files that the servers own.\<close>

definition ipc_paths :: "'s registry \<Rightarrow> path set" where
  "ipc_paths r = {q. \<exists>e\<in>set (servers r). sv_ipc_path (snd e) = Some q}"

definition tame :: "'s registry \<Rightarrow> 's registry \<Rightarrow> bool" where
  "tame r r' \<longleftrightarrow>
     (sets_ok r \<longrightarrow> sets_ok r') \<and> next_ipc_client_seq r' = next_ipc_client_seq r \<and>
     (\<forall>n. IpcClient n \<in> im_dom (streams r') \<longrightarrow> IpcClient n \<in> im_dom (streams r)) \<and>
     ipc_paths r' \<subseteq> ipc_paths r"

named_theorems tame_intros \<open>operations that are tame\<close>

lemma tame_refl [tame_intros, simp]: "tame r r"
  by (simp add: tame_def)

lemma tame_trans [trans]: "tame r r1 \<Longrightarrow> tame r1 r2 \<Longrightarrow> tame r r2"
  by (auto simp: tame_def)

lemma tame_paths: "tame r r' \<Longrightarrow> ipc_paths r' \<subseteq> ipc_paths r"
  by (simp add: tame_def)

lemma tame_sets: "tame r r' \<Longrightarrow> sets_ok r \<Longrightarrow> sets_ok r'"
  by (simp add: tame_def)

lemma tame_seq: "tame r r' \<Longrightarrow> seq_ok r \<Longrightarrow> seq_ok r'"
  by (auto simp: tame_def seq_ok_def)

section \<open>Changes of one map\<close>

lemma sets_update:
  assumes "\<forall>e\<in>set m. is_distinct (sv_children (snd e))"
    and "\<And>s. is_distinct (sv_children s) \<Longrightarrow> is_distinct (sv_children (f s))"
  shows "\<forall>e\<in>set (im_update i f m). is_distinct (sv_children (snd e))"
  using assms(1)
proof (induction m)
  case (Cons e m)
  then show ?case using assms(2) by (cases e) simp
qed simp

lemma sets_insert:
  assumes "\<forall>e\<in>set m. is_distinct (sv_children (snd e))" and "is_distinct (sv_children s)"
  shows "\<forall>e\<in>set (im_insert i s m). is_distinct (sv_children (snd e))"
  using assms(1)
proof (induction m)
  case Nil
  with assms(2) show ?case by simp
next
  case (Cons e m)
  then show ?case using assms(2) by (cases e) simp
qed

lemma sets_remove:
  "\<forall>e\<in>set m. is_distinct (sv_children (snd e)) \<Longrightarrow>
     \<forall>e\<in>set (im_remove i m). is_distinct (sv_children (snd e))"
  by (simp add: im_remove_filter)

lemma tame_servers:
  "streams r' = streams r \<Longrightarrow> next_ipc_client_seq r' = next_ipc_client_seq r \<Longrightarrow>
   (sets_ok r \<Longrightarrow> sets_ok r') \<Longrightarrow> ipc_paths r' \<subseteq> ipc_paths r \<Longrightarrow> tame r r'"
  by (simp add: tame_def)

lemma tame_streams:
  "servers r' = servers r \<Longrightarrow> next_ipc_client_seq r' = next_ipc_client_seq r \<Longrightarrow>
   (\<And>n. IpcClient n \<in> im_dom (streams r') \<Longrightarrow> IpcClient n \<in> im_dom (streams r)) \<Longrightarrow> tame r r'"
  by (simp add: tame_def sets_ok_def ipc_paths_def)

lemma paths_update:
  assumes "\<And>s. sv_ipc_path (f s) = sv_ipc_path s"
  shows "e \<in> set (im_update i f m) \<Longrightarrow> \<exists>e'\<in>set m. sv_ipc_path (snd e') = sv_ipc_path (snd e)"
  by (induction m) (auto simp: assms split: if_splits)

lemma tame_update_server:
  assumes "\<And>s. is_distinct (sv_children s) \<Longrightarrow> is_distinct (sv_children (f s))"
    and "\<And>s. sv_ipc_path (f s) = sv_ipc_path s"
  shows "tame r (r\<lparr>servers := im_update i f (servers r)\<rparr>)"
proof (rule tame_servers)
  assume "sets_ok r"
  then show "sets_ok (r\<lparr>servers := im_update i f (servers r)\<rparr>)"
    unfolding sets_ok_def using sets_update [OF _ assms(1)] by simp
next
  show "ipc_paths (r\<lparr>servers := im_update i f (servers r)\<rparr>) \<subseteq> ipc_paths r"
  proof
    fix q
    assume "q \<in> ipc_paths (r\<lparr>servers := im_update i f (servers r)\<rparr>)"
    then obtain e where "e \<in> set (im_update i f (servers r))" "sv_ipc_path (snd e) = Some q"
      by (auto simp: ipc_paths_def)
    with paths_update [where f = f, OF assms(2)] show "q \<in> ipc_paths r"
      unfolding ipc_paths_def by (metis (mono_tags, lifting) mem_Collect_eq)
  qed
qed simp_all

lemma tame_update_children:
  assumes "\<And>c. is_distinct c \<Longrightarrow> is_distinct (f c)"
  shows "tame r (update_children f o_p r)"
proof (cases o_p)
  case (Some p)
  have "tame r (r\<lparr>servers := im_update p (\<lambda>srv. srv\<lparr>sv_children := f (sv_children srv)\<rparr>) (servers r)\<rparr>)"
    by (rule tame_update_server) (simp_all add: assms)
  with Some show ?thesis by (simp add: update_children_def)
qed (simp add: update_children_def)

lemma tame_update_stream: "tame r (r\<lparr>streams := im_update i f (streams r)\<rparr>)"
  by (rule tame_streams) simp_all

lemma tame_remove_stream: "tame r (r\<lparr>streams := im_remove i (streams r)\<rparr>)"
  by (rule tame_streams) simp_all

lemma tame_forget_label: "tame r (forget_label l r)"
  by (rule tame_streams) simp_all

lemma tame_insert_entry:
  "(\<And>n. key i \<noteq> IpcClient n) \<Longrightarrow> tame r (r\<lparr>streams := im_insert i h (streams r)\<rparr>)"
  by (rule tame_streams) (auto simp: eq_commute)

section \<open>The operations\<close>

lemma tame_insert_stream [tame_intros]:
  assumes "insert_stream h r = (r', e)" and "\<And>n. cs_id (sh_state h) \<noteq> IpcClient n"
  shows "tame r r'"
proof -
  let ?i = "cs_id (sh_state h)"
  let ?r1 = "update_children (is_insert ?i) (sh_parent h) r"
  have "tame r ?r1" by (rule tame_update_children) (rule is_distinct_insert)
  also have "key ?i \<noteq> IpcClient n" for n using assms(2) by (cases ?i) auto
  then have "tame ?r1 (?r1\<lparr>streams := im_insert ?i h (streams ?r1)\<rparr>)" by (rule tame_insert_entry)
  finally show ?thesis using assms(1) by (simp add: insert_stream_def Let_def)
qed

lemma tame_drop_stream [tame_intros]: "drop_stream i r = (r', e) \<Longrightarrow> tame r r'"
proof (cases "sget r i")
  case (Some h)
  let ?r1 = "r\<lparr>streams := im_remove i (streams r)\<rparr>"
  let ?r2 = "update_children (is_remove i) (sh_parent h) ?r1"
  assume "drop_stream i r = (r', e)"
  then have r': "r' = forget_label (cs_label (sh_state h)) ?r2"
    using Some by (simp add: drop_stream_def Let_def on_closed_def)
  have "tame r ?r1" by (rule tame_remove_stream)
  also have "tame ?r1 ?r2" by (rule tame_update_children) (rule is_distinct_remove)
  also have "tame ?r2 r'" unfolding r' by (rule tame_forget_label)
  finally show ?thesis .
qed (simp add: drop_stream_absent)

lemma tame_drop_streams [tame_intros]: "drop_streams cs r = (r', e) \<Longrightarrow> tame r r'"
proof (induction cs arbitrary: r e)
  case (Cons c cs)
  then show ?case by (auto split: prod.splits intro: tame_trans tame_drop_stream)
qed simp

lemma tame_drop_server [tame_intros]: "drop_server i r = (r', e) \<Longrightarrow> tame r r'"
proof (cases "vget r i")
  case (Some srv)
  let ?r1 = "r\<lparr>servers := im_remove i (servers r)\<rparr>"
  obtain r2 e2 where 2: "drop_streams (sv_children srv) ?r1 = (r2, e2)"
    by (cases "drop_streams (sv_children srv) ?r1")
  assume "drop_server i r = (r', e)"
  then have r': "r' = forget_label (cs_label (sv_state srv)) r2"
    using Some 2 by (simp add: drop_server_def Let_def)
  have "tame r ?r1"
  proof (rule tame_servers)
    have "set (im_remove i (servers r)) \<subseteq> set (servers r)" by (auto simp: im_remove_filter)
    then show "ipc_paths ?r1 \<subseteq> ipc_paths r" unfolding ipc_paths_def by auto
  qed (simp_all add: sets_ok_def im_remove_filter)
  also have "tame ?r1 r2" by (rule tame_drop_streams [OF 2])
  also have "tame r2 r'" unfolding r' by (rule tame_forget_label)
  finally show ?thesis .
qed (simp add: drop_server_absent)

lemma tame_apply_label [tame_intros]: "apply_label i name r = (res, r') \<Longrightarrow> tame r r'"
proof -
  assume ap: "apply_label i name r = (res, r')"
  have lab: "tame r (r1\<lparr>labels := l\<rparr>)" if "tame r r1" for r1 l
    using that by (simp add: tame_def sets_ok_def ipc_paths_def)
  have srv: "tame r1 (r1\<lparr>servers := im_update i (label_server name) (servers r1)\<rparr>)" for r1 :: "'a registry"
    by (rule tame_update_server) simp_all
  have "tame r (forget_label (current_label r i) r)" by (rule tame_forget_label)
  note f1 = tame_trans [OF this tame_update_stream] and f2 = tame_trans [OF this srv]
  show ?thesis
    using ap lab [OF f1] lab [OF f2] tame_forget_label [of r]
    by (auto simp: apply_label_def Let_def split: if_splits option.splits)
qed

lemma tame_write [tame_intros]: "write_to_stream io i bytes r = (res, r') \<Longrightarrow> tame r r'"
  by (erule write_to_stream_shape) (simp_all add: tame_update_stream)

lemma tame_broadcast [tame_intros]: "broadcast io cs bytes r = (r', e) \<Longrightarrow> tame r r'"
proof (induction cs arbitrary: r e)
  case (Cons c cs)
  obtain res r1 where 1: "write_to_stream io c bytes r = (res, r1)" by (cases "write_to_stream io c bytes r")
  obtain e2 where 2: "broadcast io cs bytes r1 = (r', e2)"
    using Cons.prems 1 by (cases "broadcast io cs bytes r1") (auto simp: Let_def)
  from tame_trans [OF tame_write [OF 1] Cons.IH [OF 2]] show ?case .
qed simp

lemma tame_send_bytes [tame_intros]: "send_bytes io i bytes r = (res, r', e) \<Longrightarrow> tame r r'"
  by (auto simp: send_bytes_def Let_def split: if_splits option.splits prod.splits
      intro: tame_write tame_broadcast)

lemma tame_rename [tame_intros]:
  assumes "rename_accepted_tcp old new r = (r', e)" and "\<And>n. new \<noteq> IpcClient n"
  shows "tame r r'"
proof (cases "sget r old")
  case None
  with assms show ?thesis by (simp add: rename_absent)
next
  case (Some h)
  let ?r1 = "r\<lparr>streams := im_remove old (streams r)\<rparr>"
  let ?r2 = "update_children (\<lambda>s. is_insert new (is_remove old s)) (sh_parent h) ?r1"
  have "tame r ?r1" by (rule tame_remove_stream)
  also have "tame ?r1 ?r2"
    by (rule tame_update_children) (simp add: is_distinct_insert is_distinct_remove)
  also have "key new \<noteq> IpcClient n" for n using assms(2) by (cases new) auto
  then have "tame ?r2 (?r2\<lparr>streams := im_insert new h' (streams ?r2)\<rparr>)" for h'
    by (rule tame_insert_entry)
  finally show ?thesis using assms(1) Some by (auto simp: rename_accepted_tcp_def Let_def)
qed

lemma tame_tables: "tame r (r\<lparr>servers := im_update p (set_base b x) (servers r)\<rparr>)"
  "tame r (r\<lparr>servers := im_update p (set_next b n) (servers r)\<rparr>)"
  by (rule tame_update_server, simp, simp)+

lemma tame_allocate [tame_intros]:
  assumes al: "allocate_id mk b par r = Some (final, ev, r', e)" and "\<And>d n. mk d \<noteq> IpcClient n"
  shows "tame r r'"
proof -
  from al obtain srv where srv: "vget r par = Some srv"
    by (auto simp: allocate_id_def split: option.splits)
  show ?thesis
  proof (cases "sv_base_no_suffix srv b")
    case None
    with al srv show ?thesis by (auto simp: allocate_id_def Let_def tame_tables split: if_splits)
  next
    case (Some old)
    let ?r1 = "r\<lparr>servers := im_update par (set_base b None) (servers r)\<rparr>"
    obtain r2 e2 where 2: "rename_accepted_tcp old (mk (Some 1)) ?r1 = (r2, e2)"
      by (cases "rename_accepted_tcp old (mk (Some 1)) ?r1")
    have r': "r' = r2\<lparr>servers := im_update par (set_next b 2) (servers r2)\<rparr>"
      using al srv Some 2 by (auto simp: allocate_id_def Let_def split: option.splits)
    have "tame r ?r1" by (rule tame_tables)
    also have "tame ?r1 r2" using 2 assms(2) by (rule tame_rename)
    also have "tame r2 r'" unfolding r' by (rule tame_tables)
    finally show ?thesis .
  qed
qed

lemma paths_insert:
  "e \<in> set (im_insert i v m) \<Longrightarrow> e \<in> set m \<or> snd e = v"
  by (induction m) (auto split: if_splits)

lemma start_server_invs:
  assumes "start_server i t p al r = (out, r', e)"
  shows "sets_ok r \<Longrightarrow> sets_ok r'" and "next_ipc_client_seq r' = next_ipc_client_seq r"
    and "streams r' = streams r" and "ipc_paths r' \<subseteq> ipc_paths r \<union> {q. p = Some q}"
proof -
  have r': "r' = r\<lparr>servers := im_insert i (new_server i t p) (servers r)\<rparr>"
    using assms by (simp add: start_server_def)
  have "is_distinct (sv_children (new_server i t p))" by (simp add: new_server_def is_distinct_def)
  then show "sets_ok r \<Longrightarrow> sets_ok r'" unfolding r' by (simp add: sets_ok_def sets_insert)
  show "ipc_paths r' \<subseteq> ipc_paths r \<union> {q. p = Some q}"
    by (auto simp: r' ipc_paths_def new_server_def dest!: paths_insert)
qed (use assms in \<open>auto simp: start_server_def\<close>)

lemma tame_open [tame_intros]: "open_tcp_server d p r = (out, r', e) \<Longrightarrow> tame r r'"
proof -
  assume op: "open_tcp_server d p r = (out, r', e)"
  have "tame r r'" if "start_server i t None al r = (out, r', e0)" for i t al e0
    using start_server_invs [OF that] by (simp add: tame_def)
  then show ?thesis
    using op by (auto simp: open_tcp_server_def fail_with_def Let_def split: if_splits sum.splits)
qed

text \<open>Opening an IPC server adds its path; the other two invariants are kept.\<close>

lemma open_ipc_server_invs:
  assumes "open_ipc_server d p r = (out, r', e)"
  shows "sets_ok r \<Longrightarrow> sets_ok r'" and "seq_ok r \<Longrightarrow> seq_ok r'"
    and "ipc_paths r' \<subseteq> ipc_paths r \<union> {p}"
proof -
  consider "r' = r" | al e0 where "start_server (IpcServer p) (dep_task d) (Some p) al r = (out, r', e0)"
    using assms by (auto simp: open_ipc_server_def fail_with_def Let_def split: if_splits sum.splits)
  then have "(sets_ok r \<longrightarrow> sets_ok r') \<and> (seq_ok r \<longrightarrow> seq_ok r') \<and> ipc_paths r' \<subseteq> ipc_paths r \<union> {p}"
  proof cases
    case 2
    from start_server_invs [OF 2] show ?thesis by (auto simp: seq_ok_def)
  qed auto
  then show "sets_ok r \<Longrightarrow> sets_ok r'" and "seq_ok r \<Longrightarrow> seq_ok r'"
    and "ipc_paths r' \<subseteq> ipc_paths r \<union> {p}" by auto
qed

lemma tame_open_tcp_client [tame_intros]: "open_tcp_client d lp host rp r = (out, r', e) \<Longrightarrow> tame r r'"
  by (auto simp: open_tcp_client_def fail_with_def Let_def
      split: if_splits sum.splits prod.splits dest: tame_insert_stream)

lemma tame_close_connection [tame_intros]: "close_connection tok r = (out, r', e) \<Longrightarrow> tame r r'"
  by (auto simp: close_connection_def fail_with_def Let_def
      split: sum.splits if_splits prod.splits intro: tame_drop_server tame_drop_stream)

lemma tame_send_command [tame_intros]: "send_command d tok bytes r = (out, r', e) \<Longrightarrow> tame r r'"
  by (auto simp: send_command_def fail_with_def split: sum.splits prod.splits intro: tame_send_bytes)

lemma tame_label_command [tame_intros]: "label_command tok name r = (out, r', e) \<Longrightarrow> tame r r'"
  by (auto simp: label_command_def cmd_label_def fail_with_def
      split: sum.splits prod.splits intro: tame_apply_label)

lemma tame_handle_command:
  "handle_command d c r = (out, r', e) \<Longrightarrow> (\<And>p. c \<noteq> OpenIpcClient p \<and> c \<noteq> OpenIpcServer p) \<Longrightarrow> tame r r'"
  by (cases c) (auto intro: tame_intros)

lemma tame_handle_event: "handle_event ev r = (r', e) \<Longrightarrow> tame r r'"
  by (cases ev)
     (auto simp: on_closed_event_def Let_def split: if_splits prod.splits intro: tame_drop_stream)

lemma tame_handle_accepted:
  assumes ha: "handle_accepted d par child peer s r = Some (r', e)"
  shows "tame r r'"
proof (cases "shapes_match par child")
  case True
  from ha True obtain mk b final ev r1 e1 e2 where mk: "\<And>d. slot (mk d) = Some (par, b, d)"
    and al: "allocate_id mk b par r = Some (final, ev, r1, e1)"
    and ins: "insert_stream \<lparr>sh_state = new_connected final (Some peer), sh_stream = s,
      sh_read_task = dep_task d, sh_parent = Some par\<rparr> r1 = (r', e2)"
    by (rule handle_accepted_match) blast
  have no_seq: "mk d \<noteq> IpcClient n" for d n using mk [of d] by (cases "mk d") auto
  have final: "\<exists>d. final = mk d"
    using al by (auto simp: allocate_id_def Let_def split: option.splits if_splits prod.splits)
  have "tame r r1" using al no_seq by (rule tame_allocate)
  also have "tame r1 r'" using ins by (rule tame_insert_stream) (use final no_seq in auto)
  finally show ?thesis .
next
  case False
  with ha show ?thesis by (simp add: handle_accepted_mismatch)
qed

section \<open>The two invariants\<close>

lemma open_ipc_client_invs:
  assumes "open_ipc_client d p r = (out, r', e)"
  shows "sets_ok r \<Longrightarrow> sets_ok r'" and "seq_ok r \<Longrightarrow> seq_ok r'" and "ipc_paths r' = ipc_paths r"
proof -
  let ?n = "next_ipc_client_seq r"
  let ?r = "r\<lparr>next_ipc_client_seq := saturating_add ?n 1\<rparr>"
  have next_up: "k < saturating_add ?n 1 \<or> saturating_add ?n 1 = - 1"
    if "k = ?n \<or> k < ?n \<or> ?n = - 1" for k
  proof (cases "?n = - 1")
    case True
    have "(0 :: u32) < - 1" by (simp add: word_neq_0_conv [symmetric])
    with True show ?thesis by (simp add: saturating_add_def)
  next
    case False
    then have "unat ?n < 4294967295"
      using unat_u32_less [of ?n] word_order.not_eq_extremum [of ?n]
      by (simp add: word_less_nat_alt unsigned_minus_1_eq_mask mask_eq_exp_minus_1)
    then have "unat (saturating_add ?n 1) = unat ?n + 1" by (simp add: unat_saturating_add)
    then show ?thesis using that False by (auto simp: word_less_nat_alt)
  qed
  obtain h r1 e1 where "r' = ?r \<or> (cs_id (sh_state h) = IpcClient ?n \<and> sh_parent h = None \<and>
      insert_stream h ?r = (r1, e1) \<and> r' = r1)"
  proof (cases "dep_connect d (IpcEndpoint p)")
    case (Inl err)
    with assms that show thesis
      by (simp add: open_ipc_client_def alloc_ipc_client_seq_def fail_with_def Let_def)
  next
    case (Inr s)
    let ?h = "\<lparr>sh_state = new_connected (IpcClient ?n) (Some (IpcRemotePath p)),
      sh_stream = s, sh_read_task = dep_task d, sh_parent = None\<rparr>"
    obtain r1 e1 where "insert_stream ?h ?r = (r1, e1)" by (cases "insert_stream ?h ?r")
    with assms Inr that [of ?h r1 e1] show thesis
      by (simp add: open_ipc_client_def alloc_ipc_client_seq_def Let_def)
  qed
  then consider "r' = ?r" | "r' = ?r\<lparr>streams := im_insert (IpcClient ?n) h (streams r)\<rparr>"
    by (auto simp: insert_stream_def update_children_def Let_def)
  then show "sets_ok r \<Longrightarrow> sets_ok r'" and "seq_ok r \<Longrightarrow> seq_ok r'" and "ipc_paths r' = ipc_paths r"
    using next_up by (cases; auto simp: sets_ok_def seq_ok_def ipc_paths_def)+
qed

lemma handle_input_invs:
  assumes "handle_input d x r = Some (r', e, go)"
  shows "(sets_ok r \<longrightarrow> sets_ok r') \<and> (seq_ok r \<longrightarrow> seq_ok r') \<and>
     ipc_paths r' \<subseteq> ipc_paths r \<union> {p. \<exists>b. x = Command (OpenIpcServer p) b}"
proof -
  consider (client) p b where "x = Command (OpenIpcClient p) b"
    | (server) p b where "x = Command (OpenIpcServer p) b"
    | (other) "\<And>p b. x \<noteq> Command (OpenIpcClient p) b \<and> x \<noteq> Command (OpenIpcServer p) b"
    by blast
  then show ?thesis
  proof cases
    case client
    obtain out r1 e1 where "open_ipc_client d p r = (out, r1, e1)" by (cases "open_ipc_client d p r")
    with assms client open_ipc_client_invs [OF this] show ?thesis by simp
  next
    case server
    obtain out r1 e1 where "open_ipc_server d p r = (out, r1, e1)" by (cases "open_ipc_server d p r")
    with assms server open_ipc_server_invs [OF this] show ?thesis by simp
  next
    case other
    then have "tame r r'"
      using assms
      by (cases x) (auto simp: Let_def split: prod.splits
          intro: tame_handle_command tame_handle_event tame_handle_accepted)
    then show ?thesis using tame_paths by (auto simp: tame_sets tame_seq)
  qed
qed

interpretation sets: step_invariant registry_step "\<lambda>_ _. True" sets_ok
  by unfold_locales (auto simp: registry_step_def dest: handle_input_invs)

interpretation seqs: step_invariant registry_step "\<lambda>_ _. True" seq_ok
  by unfold_locales (auto simp: registry_step_def dest: handle_input_invs)

lemma good_run_True: "good_run step (\<lambda>_ _. True) xs s"
  by (induction xs arbitrary: s) (auto split: option.split)

lemma new_registry_invs: "sets_ok new_registry" "seq_ok new_registry"
  by (simp_all add: sets_ok_def seq_ok_def new_registry_def)

lemmas sets_reachable = sets.run_preserved [OF new_registry_invs(1) good_run_True]
lemmas seqs_reachable = seqs.run_preserved [OF new_registry_invs(2) good_run_True]

end
