(* ===== verification/Send_Properties.thy ===== *)
theory Send_Properties
  imports Samples Tame
begin

text \<open>
  Writing to connections: what \<open>send_bytes\<close> does to one stream and to the children of a server,
  against \<open>deliver\<close>, the write of one payload to one stream.
\<close>

section \<open>One stream\<close>

text \<open>Writing one payload to one stream: \<open>write_all\<close>, and \<open>flush\<close> when that went well.\<close>

definition deliver :: "'s stream_ops \<Rightarrow> u8 list \<Rightarrow> 's \<Rightarrow> string option \<times> 's" where
  "deliver io bytes s =
     (case io_write_all io s bytes of
        (Some e, s1) \<Rightarrow> (Some e, s1)
      | (None, s1) \<Rightarrow> io_flush io s1)"

abbreviation io_result :: "string option \<Rightarrow> domain_error + unit" where
  "io_result o_err \<equiv> (case o_err of Some e \<Rightarrow> Err (Io e) | None \<Rightarrow> Ok ())"

lemma write_to_stream_deliver:
  assumes "sget r i = Some h" and "cs_status (sh_state h) = Connected"
  shows "write_to_stream io i bytes r =
     (io_result (fst (deliver io bytes (sh_stream h))),
      r\<lparr>streams := im_update i (set_stream (snd (deliver io bytes (sh_stream h)))) (streams r)\<rparr>)"
  using assms by (simp add: write_to_stream_def deliver_def split: option.split prod.split)

lemma wf_connected: "wf_reg r \<Longrightarrow> sget r i = Some h \<Longrightarrow> cs_status (sh_state h) = Connected"
  using wf_core_stream [of r i h] by (auto simp: wf_reg_def stream_entry_ok_def)

text \<open>C17: Writing to a registered stream of a well-formed registry fails only with the error of the
  stream itself: the \<open>not writable\<close> branch is never taken.\<close>

theorem write_registered:
  assumes "wf_reg r" and "im_get (streams r) i = Some h"
  shows "write_to_stream io i bytes r =
     (case deliver io bytes (sh_stream h) of
        (Some e, s) \<Rightarrow> (Err (Io e), r\<lparr>streams := im_update i (set_stream s) (streams r)\<rparr>)
      | (None, s) \<Rightarrow> (Ok (), r\<lparr>streams := im_update i (set_stream s) (streams r)\<rparr>))"
  using write_to_stream_deliver [OF assms(2) wf_connected [OF assms], of io bytes]
  by (simp split: option.split prod.split)

theorem write_registered_witness:
  "fst (write_to_stream sample_io (AcceptedTcp 80 6 None) [1] sample) = Err (Io ''broken pipe'')"
proof -
  obtain h where h: "im_get (streams sample) (AcceptedTcp 80 6 None) = Some h \<and> sh_stream h = [255]"
  proof -
    have "case im_get (streams sample) (AcceptedTcp 80 6 None) of None \<Rightarrow> False | Some h \<Rightarrow> sh_stream h = [255]"
      by code_simp
    then show thesis using that by (cases "im_get (streams sample) (AcceptedTcp 80 6 None)") auto
  qed
  then show ?thesis
    using write_registered [OF wf_sample, of "AcceptedTcp 80 6 None" h sample_io "[1]"]
    by (simp add: deliver_def sample_io_def)
qed

section \<open>The children of a server\<close>

text \<open>The lines that a round of writes leaves: one for each child whose stream refused.\<close>

definition refusals :: "'s stream_ops \<Rightarrow> u8 list \<Rightarrow> 's registry \<Rightarrow> connection_id list \<Rightarrow> 's effects" where
  "refusals io bytes r cs =
     concat (map (\<lambda>c.
       case im_get (streams r) c of
         None \<Rightarrow> []
       | Some h \<Rightarrow>
           (case fst (deliver io bytes (sh_stream h)) of
              Some e \<Rightarrow> [Display (''['' @ display_name r c @ ''] ERROR '' @ show_domain_error (Io e))]
            | None \<Rightarrow> [])) cs)"

definition written :: "'s stream_ops \<Rightarrow> u8 list \<Rightarrow> 's stream_handle \<Rightarrow> 's stream_handle" where
  "written io bytes h = set_stream (snd (deliver io bytes (sh_stream h))) h"

lemma set_stream_simps [simp]:
  "sh_state (set_stream s h) = sh_state h" "sh_parent (set_stream s h) = sh_parent h"
  "sh_read_task (set_stream s h) = sh_read_task h" "sh_stream (set_stream s h) = s"
  by (simp_all add: set_stream_def)

lemma display_name_set_stream:
  "display_name (r\<lparr>streams := im_update i (set_stream s) (streams r)\<rparr>) j = display_name r j"
proof -
  have "stream_label (r\<lparr>streams := im_update i (set_stream s) (streams r)\<rparr>) j = stream_label r j"
    by (cases "sget r j") (simp_all add: stream_label_def im_get_update)
  moreover have "server_label (r\<lparr>streams := im_update i (set_stream s) (streams r)\<rparr>) j = server_label r j"
    by (simp add: server_label_def)
  ultimately show ?thesis by (simp only: display_name_def)
qed

lemma broadcast_views:
  assumes "is_distinct cs" and "\<And>c. c \<in> set cs \<Longrightarrow> \<exists>h. sget r c = Some h \<and> cs_status (sh_state h) = Connected"
    and "broadcast io cs bytes r = (r', e)"
  shows "sget r' c = (if is_member c cs then map_option (written io bytes) (sget r c) else sget r c)"
    and "e = refusals io bytes r cs" and "servers r' = servers r" and "labels r' = labels r"
  using assms
proof (atomize (full), induction cs arbitrary: r e)
  case Nil
  then show ?case by (simp add: refusals_def)
next
  case (Cons d cs)
  from Cons.prems obtain h where h: "sget r d = Some h" "cs_status (sh_state h) = Connected" by auto
  let ?s = "snd (deliver io bytes (sh_stream h))"
  let ?r1 = "r\<lparr>streams := im_update d (set_stream ?s) (streams r)\<rparr>"
  note wr = write_to_stream_deliver [OF h, of io bytes]
  obtain e2 where 2: "broadcast io cs bytes ?r1 = (r', e2)"
    using Cons.prems(3) by (cases "broadcast io cs bytes ?r1") (auto simp: wr Let_def)
  have fresh: "\<not> is_member d cs" "is_distinct cs"
    using Cons.prems(1) by (auto simp: is_distinct_def is_member_def same_id_def image_iff)
  have s1: "sget ?r1 c = (if same_id d c then Some (written io bytes h) else sget r c)" for c
  proof (cases "same_id d c")
    case True
    then have "sget r c = Some h" using h im_get_same by metis
    with True show ?thesis by (simp add: im_get_update written_def)
  qed (simp add: im_get_update)
  have conn: "\<exists>h. sget ?r1 c = Some h \<and> cs_status (sh_state h) = Connected" if "c \<in> set cs" for c
    using Cons.prems(2) [of c] that h(2) unfolding s1 by (auto simp: written_def)
  have not_d: "\<not> same_id d c" if "c \<in> set cs" for c
    using fresh(1) that by (auto simp: is_member_def dest: same_id_sym)
  have "refusals io bytes ?r1 cs = refusals io bytes r cs"
    unfolding refusals_def display_name_set_stream s1
    by (intro arg_cong [where f = concat] map_cong refl) (simp add: not_d)
  moreover have "e = refusals io bytes r [d] @ e2"
    using Cons.prems(3) h(1) 2
    by (auto simp: wr Let_def refusals_def display_name_set_stream split: option.splits)
  ultimately have "e = refusals io bytes r (d # cs)"
    using Cons.IH [OF fresh(2) conn 2] by (simp add: refusals_def)
  moreover have "sget r' c = (if is_member c (d # cs) then map_option (written io bytes) (sget r c) else sget r c)"
  proof (cases "same_id d c")
    case True
    have "sget r c = Some h" "\<not> is_member c cs"
      using True h fresh im_get_same is_member_same by metis+
    with Cons.IH [OF fresh(2) conn 2] s1 True show ?thesis by (simp add: is_member_Cons)
  next
    case False
    with Cons.IH [OF fresh(2) conn 2] s1 show ?thesis by (simp add: is_member_Cons)
  qed
  ultimately show ?case using Cons.IH [OF fresh(2) conn 2] by simp
qed

lemma wf_children:
  assumes "wf_reg r" and "vget r p = Some s" and "c \<in> set (sv_children s)"
  shows "\<exists>h. sget r c = Some h \<and> has_parent p h \<and> cs_status (sh_state h) = Connected"
  using assms wf_core_child [of r p s c] wf_connected [OF assms(1)] is_member_in [OF assms(3)]
  by (auto simp: wf_reg_def)

lemma sets_ok_children: "sets_ok r \<Longrightarrow> vget r p = Some s \<Longrightarrow> is_distinct (sv_children s)"
  by (auto simp: sets_ok_def dest!: im_get_SomeD)

lemma sample_sets: "sets_ok sample"
  by (rule sets_reachable [OF sample_run])

text \<open>C15: Sending to a server that has children succeeds and writes the payload once to each of its
  children, whatever the others answer; a child that refuses it leaves one error line. Nothing else
  is written to.\<close>

theorem send_reaches_children:
  assumes "wf_reg r" and "sets_ok r" and "im_get (servers r) p = Some s"
    and "sv_children s \<noteq> []" and "bytes \<noteq> []" and "send_bytes io p bytes r = (res, r', e)"
  shows "res = Ok () \<and> e = refusals io bytes r (sv_children s) \<and>
     im_get (streams r') c =
       (case im_get (streams r) c of
          None \<Rightarrow> None
        | Some h \<Rightarrow> Some (if has_parent p h then written io bytes h else h))"
proof -
  have core: "wf_core r" using assms(1) by (simp add: wf_reg_def)
  have "is_server p" using wf_core_server [OF core assms(3)] by (simp add: server_entry_ok_def)
  with assms(3-6) obtain e' where b: "broadcast io (sv_children s) bytes r = (r', e')" "res = Ok ()" "e = e'"
    by (auto simp: send_bytes_def Let_def split: prod.splits)
  have conn: "\<exists>h. sget r d = Some h \<and> cs_status (sh_state h) = Connected" if "d \<in> set (sv_children s)" for d
    using wf_children [OF assms(1,3) that] by blast
  note v = broadcast_views [OF sets_ok_children [OF assms(2,3)] conn b(1)]
  show ?thesis
    using wf_core_child [OF core assms(3), of c] by (auto simp: v b split: option.split)
qed

theorem send_reaches_children_witness:
  "\<exists>r' e. send_bytes sample_io (TcpServer 80) [1] sample = (Ok (), r', e) \<and>
     im_get (streams r') (IpcClient 1) = im_get (streams sample) (IpcClient 1)"
proof -
  obtain s where s: "im_get (servers sample) (TcpServer 80) = Some s" "sv_children s \<noteq> []"
  proof -
    have "case im_get (servers sample) (TcpServer 80) of None \<Rightarrow> False | Some s \<Rightarrow> sv_children s \<noteq> []"
      by code_simp
    then show thesis using that by (cases "im_get (servers sample) (TcpServer 80)") auto
  qed
  obtain res r' e where sb: "send_bytes sample_io (TcpServer 80) [1] sample = (res, r', e)"
    by (cases "send_bytes sample_io (TcpServer 80) [1] sample") auto
  have "case im_get (streams sample) (IpcClient 1) of None \<Rightarrow> False | Some h \<Rightarrow> sh_parent h = None" by code_simp
  with send_reaches_children [OF wf_sample sample_sets s _ sb, of "IpcClient 1"] sb show ?thesis
    by (auto simp: has_parent_def split: option.splits)
qed

lemma send_outcome_server:
  assumes "wf_reg r" and "bytes \<noteq> []" and "im_get (servers r) t = Some s"
  shows "fst (send_bytes io t bytes r) =
     (if \<exists>c h. im_get (streams r) c = Some h \<and> has_parent t h then Ok ()
      else Err (ServerHasNoChildren (show_id t)))"
proof -
  have core: "wf_core r" using assms(1) by (simp add: wf_reg_def)
  have "is_server t" using wf_core_server [OF core assms(3)] by (simp add: server_entry_ok_def)
  moreover have "sv_children s \<noteq> [] \<longleftrightarrow> (\<exists>c. is_member c (sv_children s))"
    using is_member_in by (cases "sv_children s") (auto, force)
  then have "sv_children s \<noteq> [] \<longleftrightarrow> (\<exists>c h. sget r c = Some h \<and> has_parent t h)"
    using wf_core_child [OF core assms(3)] by simp
  ultimately show ?thesis
    using assms(2,3)
    by (cases "sv_children s = []") (auto simp: send_bytes_def Let_def split: prod.split)
qed

lemma send_outcome_stream:
  assumes "wf_reg r" and "bytes \<noteq> []" and "im_get (streams r) t = Some h"
  shows "fst (send_bytes io t bytes r) = io_result (fst (deliver io bytes (sh_stream h)))"
proof -
  have "\<not> is_server t"
    using wf_core_stream [of r t h] assms(1,3) by (simp add: wf_reg_def stream_entry_ok_def)
  with write_to_stream_deliver [OF assms(3) wf_connected [OF assms(1,3)], of io bytes] assms(2)
  show ?thesis by (simp add: send_bytes_def)
qed

text \<open>C16: The outcome of a send in a well-formed registry, on every branch: an empty payload, an
  unknown target, a server without children, a server with some, and a stream.\<close>

theorem send_outcome:
  "wf_reg r \<Longrightarrow>
   fst (send_bytes io t bytes r) =
     (if bytes = [] then Err EmptyPayload
      else case im_get (servers r) t of
        Some _ \<Rightarrow>
          if \<exists>c h. im_get (streams r) c = Some h \<and> has_parent t h then Ok ()
          else Err (ServerHasNoChildren (show_id t))
      | None \<Rightarrow>
          (case im_get (streams r) t of
             None \<Rightarrow> Err (UnknownId (show_id t))
           | Some h \<Rightarrow> (case fst (deliver io bytes (sh_stream h)) of Some e \<Rightarrow> Err (Io e) | None \<Rightarrow> Ok ())))"
proof -
  assume wf: "wf_reg r"
  consider (empty) "bytes = []"
    | (server) s where "bytes \<noteq> []" "vget r t = Some s"
    | (stream) h where "bytes \<noteq> []" "vget r t = None" "sget r t = Some h"
    | (none) "bytes \<noteq> []" "vget r t = None" "sget r t = None"
    by (cases "vget r t"; cases "sget r t") auto
  then show ?thesis
  proof cases
    case empty
    then show ?thesis by (simp add: send_bytes_def)
  next
    case server
    then show ?thesis using send_outcome_server [OF wf] by simp
  next
    case stream
    then show ?thesis using send_outcome_stream [OF wf] by simp
  next
    case none
    then show ?thesis by (simp add: send_bytes_def write_to_stream_def)
  qed
qed

theorem send_outcome_witness:
  "fst (send_bytes sample_io (TcpClient 9) [1] sample) = Err (UnknownId (show_word (9 :: u16)))"
proof -
  have "im_get (servers sample) (TcpClient 9) = None \<and> im_get (streams sample) (TcpClient 9) = None"
    by code_simp
  with send_outcome [OF wf_sample, of sample_io "TcpClient 9" "[1]"] show ?thesis by simp
qed

section \<open>Sequence numbers of IPC clients\<close>

text \<open>C30: Until the sequence numbers are used up, the identifier of the next IPC client is taken by no
  stream, in every reachable registry.\<close>

theorem ipc_client_id_fresh:
  "run_steps registry_step xs new_registry = Some r \<Longrightarrow> next_ipc_client_seq r \<noteq> - 1 \<Longrightarrow>
   im_get (streams r) (IpcClient (next_ipc_client_seq r)) = None"
  using seqs_reachable [of xs r] by (auto simp: seq_ok_def im_get_None_iff)

theorem ipc_client_id_fresh_witness: "im_get (streams sample) (IpcClient 2) = None"
proof -
  have n: "next_ipc_client_seq sample = 2" by code_simp
  then have "next_ipc_client_seq sample \<noteq> - 1" by simp
  from ipc_client_id_fresh [OF sample_run this] show ?thesis by (simp add: n)
qed

text \<open>C31: Once the counter has reached the largest number it stays there: two clients opened one after
  the other get the same identifier, and the second one drops the stream of the first.\<close>

theorem ipc_client_seq_exhausted:
  assumes "next_ipc_client_seq r = - 1" and "dep_connect d (IpcEndpoint p) = Ok s"
    and "dep_connect d' (IpcEndpoint p') = Ok s'"
    and "open_ipc_client d p r = (out, r1, e)" and "open_ipc_client d' p' r1 = (out', r2, e')"
  shows "DropStream s \<in> set e' \<and> next_ipc_client_seq r2 = - 1"
proof -
  have sat: "saturating_add (- 1) 1 = - 1"
    by (simp add: saturating_add_def word_neq_0_conv [symmetric])
  from assms(1,2,4) have r1: "sget r1 (IpcClient (- 1)) =
      Some \<lparr>sh_state = new_connected (IpcClient (- 1)) (Some (IpcRemotePath p)), sh_stream = s,
        sh_read_task = dep_task d, sh_parent = None\<rparr>" "next_ipc_client_seq r1 = - 1"
    by (auto simp: open_ipc_client_def alloc_ipc_client_seq_def sat insert_stream_def
        update_children_def Let_def im_get_insert)
  with assms(3,5) show ?thesis
    by (auto simp: open_ipc_client_def alloc_ipc_client_seq_def sat insert_stream_def
        update_children_def Let_def displaced_def)
qed

theorem ipc_client_seq_exhausted_witness:
  "\<exists>r1 r2 out out' e e'. open_ipc_client sample_deps ''/a'' (sample\<lparr>next_ipc_client_seq := - 1\<rparr>) = (out, r1, e) \<and>
     open_ipc_client sample_deps ''/b'' r1 = (out', r2, e') \<and> DropStream [] \<in> set e'"
proof -
  let ?r = "sample\<lparr>next_ipc_client_seq := - 1\<rparr>"
  obtain out r1 e where 1: "open_ipc_client sample_deps ''/a'' ?r = (out, r1, e)"
    by (cases "open_ipc_client sample_deps ''/a'' ?r") auto
  obtain out' r2 e' where 2: "open_ipc_client sample_deps ''/b'' r1 = (out', r2, e')"
    by (cases "open_ipc_client sample_deps ''/b'' r1") auto
  have "DropStream [] \<in> set e'"
    using ipc_client_seq_exhausted [OF _ _ _ 1 2, of "[]" "[]"] by (simp add: sample_deps_def)
  with 1 2 show ?thesis by blast
qed

end
