(* ===== verification/Accept_Properties.thy ===== *)
theory Accept_Properties
  imports Samples Codec_Properties
begin

text \<open>
  Accepted connections: the accept loops, the identifiers the registry gives, the renaming of the
  first of two colliding connections, and what the renaming leaves behind.
\<close>

section \<open>Accept loops\<close>

text \<open>What an accept loop of a TCP or an IPC server reports as an accepted connection always has
  the shape the registry expects, so that the branch for mismatched shapes is not taken for it; and
  an accept loop never reports anything but one accepted connection or one error of its server.\<close>

lemma accept_turn_shapes:
  "list_all (\<lambda>x. case x of
       Accepted par child peer s \<Rightarrow> shapes_match par child \<and> par = TcpServer p
     | Event (EvError i _) \<Rightarrow> i = TcpServer p
     | _ \<Rightarrow> False) (accept_tcp_turn p (TcpServer p) a) \<and>
   list_all (\<lambda>x. case x of
       Accepted par child peer s \<Rightarrow> shapes_match par child \<and> par = IpcServer q
     | Event (EvError i _) \<Rightarrow> i = IpcServer q
     | _ \<Rightarrow> False) (accept_ipc_turn q (IpcServer q) a) \<and>
   length (accept_tcp_turn p (TcpServer p) a) \<le> 1 \<and> length (accept_ipc_turn q (IpcServer q) a) \<le> 1"
  by (cases a) (auto split: peer_info.split option.split)

text \<open>The port that an accept loop reads off a peer address is the one that was printed after the
  last colon, also for an IPv6 address.\<close>

lemma remote_port_roundtrip: "parse_remote_port (host @ '':'' @ show_word p) = Some p"
  by (simp add: parse_remote_port_def rfind_char_append notin_show_nat)

section \<open>A new connection\<close>

text \<open>C18: An accepted connection whose server is registered is registered under an identifier of that
  server, connected, with no label, with the stream and the peer it came with; its read task is
  spawned for that identifier, and the line that reports it comes last.\<close>

theorem accept_registers:
  assumes "wf_reg r" and "well_addressed (d, Accepted par child peer s) r" and "shapes_match par child"
    and "im_contains (servers r) par"
  shows "\<exists>final r' e. handle_accepted d par child peer s r = Some (r', e) \<and> wf_reg r' \<and>
     im_get (streams r') final = Some \<lparr>sh_state = new_connected final (Some peer), sh_stream = s,
       sh_read_task = dep_task d, sh_parent = Some par\<rparr> \<and>
     SpawnRead (dep_task d) final \<in> set e \<and>
     last e = Display (''['' @ show_id final @ ''] ACCEPT peer='' @ render_peer peer)"
proof -
  have "handle_accepted d par child peer s r \<noteq> None"
    using assms(3,4) by (simp add: handle_accepted_None_iff im_contains_def)
  then obtain r' e where ha: "handle_accepted d par child peer s r = Some (r', e)" by auto
  from ha assms(3) obtain mk b final ev r1 e1 e2 where
    ins: "insert_stream \<lparr>sh_state = new_connected final (Some peer), sh_stream = s,
      sh_read_task = dep_task d, sh_parent = Some par\<rparr> r1 = (r', e2)"
    and e: "e = e1 @ rename_line ev @ [SpawnRead (dep_task d) final] @ e2 @
      [Display (''['' @ show_id final @ ''] ACCEPT peer='' @ render_peer peer)]"
    by (rule handle_accepted_match) blast
  have "wf_reg r'" using assms(1,2) ha by (rule wf_handle_accepted)
  with ha e insert_stream_views(1) [OF ins, of final] show ?thesis
    by (intro exI [of _ final] exI [of _ r'] exI [of _ e]) simp
qed

theorem accept_registers_witness:
  "\<exists>r' e. handle_accepted sample_deps (TcpServer 80) (AcceptedTcp 80 7 None) (TcpSocket ''h:7'') [] sample
     = Some (r', e) \<and> wf_reg r'"
proof -
  have "im_contains (servers sample) (TcpServer 80)" by code_simp
  from accept_registers [OF wf_sample _ _ this, of sample_deps "AcceptedTcp 80 7 None" "TcpSocket ''h:7''" "[]"]
  show ?thesis by auto
qed

section \<open>Colliding connections\<close>

text \<open>The second connection of a base key whose first one is still registered.\<close>

lemma allocate_second:
  assumes wf: "wf_reg r" and srv: "vget r par = Some srv" "sv_ipc_path srv = raw_path par"
    and mk: "\<And>d. slot (mk d) = Some (par, b, d)"
    and base: "sv_base_no_suffix srv b = Some (mk None)" and h: "sget r (mk None) = Some h"
  obtains r2 srv2 where "allocate_id mk b par r = Some (mk (Some 2), Some (Renamed (mk (Some 1)) (mk None)), r2, [])"
    and "\<And>j. sget r2 j = (if same_id (mk (Some 1)) j then Some (with_id (mk (Some 1)) h)
        else if same_id (mk None) j then None else sget r j)"
    and "labels r2 = labels r" and "vget r2 par = Some srv2"
    and "sv_base_no_suffix srv2 b = None" and "sv_disambig_next srv2 b = Some 2"
proof -
  have "base_ok par srv" using wf srv by (simp add: wf_reg_def wf_bases_def)
  then have no_next: "sv_disambig_next srv b = None" using base by (simp add: base_ok_def)
  have fresh: "sget r (mk (Some 1)) = None" by (rule suffix_fresh [OF wf mk srv no_next])
  let ?r1 = "r\<lparr>servers := im_update par (set_base b None) (servers r)\<rparr>"
  obtain r2 e where ren: "rename_accepted_tcp (mk None) (mk (Some 1)) ?r1 = (r2, e)"
    by (cases "rename_accepted_tcp (mk None) (mk (Some 1)) ?r1")
  note v = rename_views [OF ren, simplified, OF h]
  have e: "e = []" using fresh by (simp add: v displaced_def)
  obtain srv2 where srv2: "vget r2 par = Some srv2" "tables srv2 = tables (set_base b None srv)"
  proof -
    have "vget ?r1 par = Some (set_base b None srv)" using srv(1) by (simp add: im_get_update)
    with v(2) [of par] that show thesis by (cases "has_parent par h") auto
  qed
  let ?r3 = "r2\<lparr>servers := im_update par (set_next b 2) (servers r2)\<rparr>"
  show thesis
  proof (rule that [of ?r3 "set_next b 2 srv2"])
    show "allocate_id mk b par r = Some (mk (Some 2), Some (Renamed (mk (Some 1)) (mk None)), ?r3, [])"
      using srv base no_next ren srv2(1) by (simp add: allocate_id_def e)
    show "vget ?r3 par = Some (set_next b 2 srv2)" using srv2(1) by (simp add: im_get_update)
    show "sv_base_no_suffix (set_next b 2 srv2) b = None" "sv_disambig_next (set_next b 2 srv2) b = Some 2"
      using srv2(2) by (simp_all add: tables_def)
    show "sget ?r3 j = (if same_id (mk (Some 1)) j then Some (with_id (mk (Some 1)) h)
        else if same_id (mk None) j then None else sget r j)" for j by (simp add: v)
    show "labels ?r3 = labels r" by (simp add: v)
  qed
qed

lemma tcp_allocate_second:
  assumes wf: "wf_reg r" and srv: "vget r (TcpServer p) = Some srv"
    and base: "sv_base_no_suffix srv (show_word p @ ''.'' @ show_word q) = Some (AcceptedTcp p q None)"
    and h: "sget r (AcceptedTcp p q None) = Some h"
  obtains r2 srv2 where "allocate_accepted_tcp_id p q r =
      Some (AcceptedTcp p q (Some 2), Some (Renamed (AcceptedTcp p q (Some 1)) (AcceptedTcp p q None)), r2, [])"
    and "\<And>j. sget r2 j = (if j = AcceptedTcp p q (Some 1) then Some (with_id (AcceptedTcp p q (Some 1)) h)
        else if j = AcceptedTcp p q None then None else sget r j)"
    and "labels r2 = labels r" and "vget r2 (TcpServer p) = Some srv2"
    and "sv_base_no_suffix srv2 (show_word p @ ''.'' @ show_word q) = None"
    and "sv_disambig_next srv2 (show_word p @ ''.'' @ show_word q) = Some 2"
proof -
  have "sv_ipc_path srv = raw_path (TcpServer p)" using tcp_server_path [OF wf srv] by simp
  from wf srv this _ base h obtain r2 srv2 where
    "allocate_id (AcceptedTcp p q) (show_word p @ ''.'' @ show_word q) (TcpServer p) r =
      Some (AcceptedTcp p q (Some 2), Some (Renamed (AcceptedTcp p q (Some 1)) (AcceptedTcp p q None)), r2, [])"
    "\<And>j. sget r2 j = (if same_id (AcceptedTcp p q (Some 1)) j then Some (with_id (AcceptedTcp p q (Some 1)) h)
        else if same_id (AcceptedTcp p q None) j then None else sget r j)"
    "labels r2 = labels r" "vget r2 (TcpServer p) = Some srv2"
    "sv_base_no_suffix srv2 (show_word p @ ''.'' @ show_word q) = None"
    "sv_disambig_next srv2 (show_word p @ ''.'' @ show_word q) = Some 2"
    by (rule allocate_second [where mk = "AcceptedTcp p q"]) auto
  then show thesis
    using that unfolding allocate_accepted_tcp_id_eq same_id_path_free' by blast
qed

definition tcp_base :: "u16 \<Rightarrow> u16 \<Rightarrow> string" where
  "tcp_base p q = show_word p @ ''.'' @ show_word q"

text \<open>The first connection of a base key keeps the identifier without suffix, and the server
  remembers it as the one to rename; nothing but this table changes.\<close>

lemma first_connection:
  assumes "im_get (servers r) (TcpServer p) = Some srv"
    and "sv_base_no_suffix srv (tcp_base p q) = None" and "sv_disambig_next srv (tcp_base p q) = None"
  shows "\<exists>r'. allocate_accepted_tcp_id p q r = Some (AcceptedTcp p q None, None, r', []) \<and>
     streams r' = streams r \<and> labels r' = labels r \<and>
     map_option (\<lambda>s. sv_base_no_suffix s (tcp_base p q)) (im_get (servers r') (TcpServer p)) =
       Some (Some (AcceptedTcp p q None))"
  using assms by (simp add: allocate_accepted_tcp_id_def tcp_base_def im_get_update Let_def)

text \<open>The situation in which a second connection collides with a first one that is still there.\<close>

definition first_registered :: "u16 \<Rightarrow> u16 \<Rightarrow> 's registry \<Rightarrow> bool" where
  "first_registered p q r \<longleftrightarrow>
     (case im_get (servers r) (TcpServer p) of
        None \<Rightarrow> False
      | Some srv \<Rightarrow> sv_base_no_suffix srv (tcp_base p q) = Some (AcceptedTcp p q None)) \<and>
     im_contains (streams r) (AcceptedTcp p q None)"

lemma first_registered_second:
  assumes wf: "wf_reg r" and fr: "first_registered p q r"
  obtains h r2 srv2 where "sget r (AcceptedTcp p q None) = Some h"
    and "allocate_accepted_tcp_id p q r =
      Some (AcceptedTcp p q (Some 2), Some (Renamed (AcceptedTcp p q (Some 1)) (AcceptedTcp p q None)), r2, [])"
    and "\<And>j. sget r2 j = (if j = AcceptedTcp p q (Some 1) then Some (with_id (AcceptedTcp p q (Some 1)) h)
        else if j = AcceptedTcp p q None then None else sget r j)"
    and "labels r2 = labels r" and "vget r2 (TcpServer p) = Some srv2"
    and "sv_base_no_suffix srv2 (tcp_base p q) = None" and "sv_disambig_next srv2 (tcp_base p q) = Some 2"
    and "wf_reg r2"
proof -
  from fr obtain srv h where srv: "vget r (TcpServer p) = Some srv"
    and base: "sv_base_no_suffix srv (show_word p @ ''.'' @ show_word q) = Some (AcceptedTcp p q None)"
    and h: "sget r (AcceptedTcp p q None) = Some h"
    by (auto simp: first_registered_def tcp_base_def im_contains_def split: option.splits)
  have path: "sv_ipc_path srv = raw_path (TcpServer p)" using tcp_server_path [OF wf srv] by simp
  obtain d ev r1 where "allocate_accepted_tcp_id p q r = Some (AcceptedTcp p q d, ev, r1, [])" "wf_reg r1"
    by (rule allocate_id_wf [OF wf srv path, of "AcceptedTcp p q" "show_word p @ ''.'' @ show_word q"])
       (auto simp: allocate_accepted_tcp_id_eq)
  note r1 = this
  obtain r2 srv2 where two: "allocate_accepted_tcp_id p q r =
      Some (AcceptedTcp p q (Some 2), Some (Renamed (AcceptedTcp p q (Some 1)) (AcceptedTcp p q None)), r2, [])"
    "\<And>j. sget r2 j = (if j = AcceptedTcp p q (Some 1) then Some (with_id (AcceptedTcp p q (Some 1)) h)
        else if j = AcceptedTcp p q None then None else sget r j)"
    "labels r2 = labels r" "vget r2 (TcpServer p) = Some srv2"
    "sv_base_no_suffix srv2 (show_word p @ ''.'' @ show_word q) = None"
    "sv_disambig_next srv2 (show_word p @ ''.'' @ show_word q) = Some 2"
    by (rule tcp_allocate_second [OF wf srv base h]) blast
  from r1 two(1) have "wf_reg r2" by simp
  from that [OF h two(1-4) two(5,6) [folded tcp_base_def] this] show thesis .
qed

text \<open>C19: When a second connection collides with a first one, the first is renamed to \<open>#1\<close> with its
  stream, label, peer and parent kept, the second is given \<open>#2\<close>, and the change of name is reported.\<close>

theorem second_connection:
  assumes "wf_reg r" and "first_registered p q r"
  shows "\<exists>h r'. im_get (streams r) (AcceptedTcp p q None) = Some h \<and>
     allocate_accepted_tcp_id p q r =
       Some (AcceptedTcp p q (Some 2), Some (Renamed (AcceptedTcp p q (Some 1)) (AcceptedTcp p q None)), r', []) \<and>
     im_get (streams r') (AcceptedTcp p q None) = None \<and>
     im_get (streams r') (AcceptedTcp p q (Some 1)) =
       Some (h\<lparr>sh_state := (sh_state h)\<lparr>cs_id := AcceptedTcp p q (Some 1)\<rparr>\<rparr>)"
  by (rule first_registered_second [OF assms]) (simp add: with_id_def)

lemma sample_first: "first_registered 80 5 sample"
  by code_simp

theorem second_connection_witness:
  "\<exists>r'. allocate_accepted_tcp_id 80 5 sample =
     Some (AcceptedTcp 80 5 (Some 2), Some (Renamed (AcceptedTcp 80 5 (Some 1)) (AcceptedTcp 80 5 None)), r', [])"
  using second_connection [OF wf_sample sample_first] by blast

text \<open>C9: The third connection of a base key is given the identifier of the second one again, because
  the counter is set to the number that has just been handed out. Registering the third connection
  displaces the second one and drops its stream.\<close>

theorem third_connection_takes_second_id:
  assumes "wf_reg r" and "first_registered p q r"
    and "allocate_accepted_tcp_id p q r = Some (i2, ev2, r2, e2)"
    and "insert_stream h2 r2 = (r3, e3)" and "cs_id (sh_state h2) = i2"
  shows "\<exists>r4. allocate_accepted_tcp_id p q r3 = Some (i2, None, r4, []) \<and>
     (\<forall>h3. cs_id (sh_state h3) = i2 \<longrightarrow> snd (insert_stream h3 r4) = [DropStream (sh_stream h2)])"
proof -
  obtain srv2 where i2: "i2 = AcceptedTcp p q (Some 2)" and srv2: "vget r2 (TcpServer p) = Some srv2"
    "sv_base_no_suffix srv2 (tcp_base p q) = None" "sv_disambig_next srv2 (tcp_base p q) = Some 2"
    using assms(3) by (rule_tac first_registered_second [OF assms(1,2)]) simp
  note v = insert_stream_views [OF assms(4)]
  obtain srv3 where srv3: "vget r3 (TcpServer p) = Some srv3" "tables srv3 = tables srv2"
    using srv2(1) that by (cases "has_parent (TcpServer p) h2") (auto simp: v)
  let ?r4 = "r3\<lparr>servers := im_update (TcpServer p) (set_next (tcp_base p q) (2 + 1)) (servers r3)\<rparr>"
  have "allocate_accepted_tcp_id p q r3 = Some (i2, None, ?r4, [])"
    using srv3 srv2 by (simp add: allocate_accepted_tcp_id_def tcp_base_def tables_def i2)
  moreover have "sget ?r4 i2 = Some h2" using assms(5) by (simp add: v)
  then have "snd (insert_stream h3 ?r4) = [DropStream (sh_stream h2)]" if "cs_id (sh_state h3) = i2" for h3
    using insert_stream_views(7) [of h3 ?r4 "fst (insert_stream h3 ?r4)" "snd (insert_stream h3 ?r4)"] that
    by (simp add: displaced_def)
  ultimately show ?thesis by blast
qed

theorem third_connection_witness:
  "\<exists>i2 ev2 r2 e2 h2 r4. allocate_accepted_tcp_id 80 5 sample = Some (i2, ev2, r2, e2) \<and>
     allocate_accepted_tcp_id 80 5 (fst (insert_stream h2 r2)) = Some (i2, None, r4, [])"
proof -
  obtain r2 where al: "allocate_accepted_tcp_id 80 5 sample = Some (AcceptedTcp 80 5 (Some 2),
      Some (Renamed (AcceptedTcp 80 5 (Some 1)) (AcceptedTcp 80 5 None)), r2, [])"
    by (rule first_registered_second [OF wf_sample sample_first]) blast
  let ?h = "\<lparr>sh_state = new_connected (AcceptedTcp 80 5 (Some 2)) None, sh_stream = [],
    sh_read_task = 0, sh_parent = Some (TcpServer 80)\<rparr>"
  obtain r3 e3 where ins: "insert_stream ?h r2 = (r3, e3)" by (cases "insert_stream ?h r2")
  from third_connection_takes_second_id [OF wf_sample sample_first al ins] al ins show ?thesis
    by (metis fst_conv new_connected_simps(1) stream_handle.select_convs(1))
qed

text \<open>C20: The renaming leaves the label of the first connection pointing at the identifier it had
  before: the label is still displayed, but resolves to an identifier that is not registered, so that
  closing by the label fails and changes nothing. The close event of the renamed connection's read
  task, which carries the old identifier, is ignored.\<close>

theorem renaming_leaves_stale_names:
  assumes "wf_reg r" and "first_registered p q r"
    and "labels r l = Some (AcceptedTcp p q None)" and "current_label r (AcceptedTcp p q None) = Some l"
    and "allocate_accepted_tcp_id p q r = Some (i2, ev2, r2, e2)"
  shows "display_name r2 (AcceptedTcp p q (Some 1)) = l \<and>
     resolve_id r2 l default_token_parser = Ok (AcceptedTcp p q None) \<and>
     \<not> registered r2 (AcceptedTcp p q None) \<and>
     close_connection l r2 = (outcome_err (show_domain_error (UnknownId l)), r2, []) \<and>
     handle_event (EvClosed (AcceptedTcp p q None)) r2 = (r2, [])"
proof -
  let ?old = "AcceptedTcp p q None" and ?new = "AcceptedTcp p q (Some 1)"
  obtain h where h: "sget r ?old = Some h" and s: "\<And>j. sget r2 j =
      (if j = ?new then Some (with_id ?new h) else if j = ?old then None else sget r j)"
    and lab: "labels r2 = labels r" and wf2: "wf_reg r2"
    using assms(5) by (rule_tac first_registered_second [OF assms(1,2)]) simp
  have gone: "\<not> registered r2 ?old"
    using wf_no_server [of r2 ?old] wf2 by (simp add: im_contains_def s wf_reg_def)
  have "stream_label r2 ?new = Some l"
    using assms(4) h by (simp add: stream_label_def s current_label_eq)
  then have "display_name r2 ?new = l" by (simp add: display_name_def)
  moreover have "resolve_id r2 l default_token_parser = Ok ?old"
    using assms(3) by (simp add: resolve_id_def lab)
  ultimately show ?thesis
    using gone by (simp add: close_connection_def on_closed_event_def fail_with_def)
qed

theorem renaming_leaves_stale_names_witness:
  "\<exists>i2 ev2 r2 e2. allocate_accepted_tcp_id 80 5 sample = Some (i2, ev2, r2, e2) \<and>
     display_name r2 (AcceptedTcp 80 5 (Some 1)) = ''alice'' \<and>
     resolve_id r2 ''alice'' default_token_parser = Ok (AcceptedTcp 80 5 None) \<and>
     close_connection ''alice'' r2 = (outcome_err (show_domain_error (UnknownId ''alice'')), r2, [])"
proof -
  obtain i2 ev2 r2 e2 where al: "allocate_accepted_tcp_id 80 5 sample = Some (i2, ev2, r2, e2)"
    by (rule first_registered_second [OF wf_sample sample_first]) blast
  have l: "labels sample ''alice'' = Some (AcceptedTcp 80 5 None)"
    "current_label sample (AcceptedTcp 80 5 None) = Some ''alice''" by code_simp+
  from renaming_leaves_stale_names [OF wf_sample sample_first l al] al show ?thesis by blast
qed

section \<open>Closing events\<close>

text \<open>The close event of a registered stream removes the stream, aborts its read task and reports
  the connection under the name it is displayed with; a second such event does nothing.\<close>

lemma close_event_once:
  assumes "im_get (streams r) i = Some h" and "handle_event (EvClosed i) r = (r', e)"
  shows "im_get (streams r') j = (if same_id i j then None else im_get (streams r) j) \<and>
     e = [AbortTask (sh_read_task h), DropStream (sh_stream h), Display (''['' @ display_name r i @ ''] CLOSED'')] \<and>
     handle_event (EvClosed i) r' = (r', [])"
proof -
  obtain r1 e1 where dr: "drop_stream i r = (r1, e1)" by (cases "drop_stream i r")
  have "im_contains (streams r) i" using assms(1) by (simp add: im_contains_def)
  with assms(2) dr have r': "r' = r1" and e: "e = e1 @ [Display (''['' @ display_name r i @ ''] CLOSED'')]"
    by (auto simp: on_closed_event_def Let_def)
  note v = drop_stream_views [OF dr]
  show ?thesis using assms(1) by (simp add: r' e v on_closed_event_def im_contains_def)
qed

section \<open>Read tasks\<close>

text \<open>What a read task has sent: the bytes, and how often it said that the connection closed.\<close>

fun received_bytes :: "'s registry_input list \<Rightarrow> u8 list" where
  "received_bytes [] = []"
| "received_bytes (Event (Received _ bs) # xs) = bs @ received_bytes xs"
| "received_bytes (_ # xs) = received_bytes xs"

text \<open>The bytes that come before the end of the file or the first error.\<close>

fun bytes_before_end :: "read_result list \<Rightarrow> u8 list" where
  "bytes_before_end (ReadOk (b # bs) # xs) = (b # bs) @ bytes_before_end xs"
| "bytes_before_end _ = []"

fun ends :: "read_result list \<Rightarrow> bool" where
  "ends [] = False"
| "ends (ReadOk (b # bs) # xs) = ends xs"
| "ends _ = True"

fun is_closed_event :: "'s registry_input \<Rightarrow> bool" where
  "is_closed_event (Event (EvClosed _)) = True"
| "is_closed_event _ = False"

text \<open>The identifier that an event of a read task carries.\<close>

fun carries :: "connection_id \<Rightarrow> 's registry_input \<Rightarrow> bool" where
  "carries i (Event (Received j _)) \<longleftrightarrow> j = i"
| "carries i (Event (EvClosed j)) \<longleftrightarrow> j = i"
| "carries i (Event (EvError j _)) \<longleftrightarrow> j = i"
| "carries i _ \<longleftrightarrow> False"

text \<open>C39: A read task forwards every byte it reads before the end, in order and under its own
  identifier, and reports the end of the connection exactly once, as its last message, when the
  stream ends or fails.\<close>

theorem read_loop_forwards:
  "received_bytes (read_loop i xs :: 's registry_input list) = bytes_before_end xs \<and>
   filter is_closed_event (read_loop i xs :: 's registry_input list) =
     (if ends xs then [Event (EvClosed i)] else []) \<and>
   (if ends xs then last (read_loop i xs :: 's registry_input list) = Event (EvClosed i) else True) \<and>
   list_all (carries i) (read_loop i xs :: 's registry_input list)"
proof (induction xs rule: ends.induct)
  case (2 b bs xs)
  have "read_loop i xs \<noteq> ([] :: 's registry_input list)" if "ends xs" using 2 that by (metis filter.simps(1) list.distinct(1))
  with 2 show ?case by simp
qed simp_all

section \<open>Reconnecting\<close>

text \<open>C21: When the only connection of a base key closes and its client connects again from the same
  port, the new connection is given the suffix \<open>#2\<close>, and a renaming of the closed connection to
  \<open>#1\<close> is reported, although no connection of that name exists before or after.\<close>

theorem reconnect_reports_renaming:
  assumes wf: "wf_reg r" and fr: "first_registered p q r"
    and cl: "handle_event (EvClosed (AcceptedTcp p q None)) r = (r1, e1)"
  shows "\<exists>r2 e2. handle_accepted d (TcpServer p) (AcceptedTcp p q None) peer s r1 = Some (r2, e2) \<and>
     Display (''['' @ show_id (AcceptedTcp p q (Some 1)) @ ''] RENAMED '' @ show_id (AcceptedTcp p q None)) \<in> set e2 \<and>
     im_contains (streams r2) (AcceptedTcp p q (Some 2)) \<and>
     \<not> registered r1 (AcceptedTcp p q (Some 1)) \<and> \<not> registered r2 (AcceptedTcp p q (Some 1))"
proof -
  let ?old = "AcceptedTcp p q None" and ?one = "AcceptedTcp p q (Some 1)" and ?b = "tcp_base p q"
  have parts: "wf_core r" "wf_slots r" "wf_bases r" using wf by (auto simp: wf_reg_def)
  from fr obtain srv h where srv: "vget r (TcpServer p) = Some srv"
    and base: "sv_base_no_suffix srv ?b = Some ?old" and h: "sget r ?old = Some h"
    by (auto simp: first_registered_def im_contains_def split: option.splits)
  obtain r0 e0 where dr: "drop_stream ?old r = (r0, e0)" by (cases "drop_stream ?old r")
  with cl h have r1: "r1 = r0" by (auto simp: on_closed_event_def im_contains_def)
  note v = drop_stream_views [OF dr]
  obtain srv1 where srv1: "vget r1 (TcpServer p) = Some srv1" "sv_base_no_suffix srv1 ?b = Some ?old"
    using srv base h that by (cases "has_parent (TcpServer p) h") (auto simp: r1 v)
  have gone: "sget r1 ?old = None" by (simp add: r1 v)
  have "renamed_from ?old ?one" by (simp add: renamed_from_def)
  then have "sget r ?one = None"
    using no_both [OF parts h same_id_refl] by (cases "sget r ?one") auto
  then have one: "sget r1 ?one = None" by (simp add: r1 v)
  have wf1: "wf_core r1" using wf_drop_stream [OF wf dr] by (simp add: r1 wf_reg_def)
  let ?r = "r1\<lparr>servers := im_update (TcpServer p) (set_next ?b 2)
      (im_update (TcpServer p) (set_base ?b None) (servers r1))\<rparr>"
  have al: "allocate_accepted_tcp_id p q r1 =
      Some (AcceptedTcp p q (Some 2), Some (Renamed ?one ?old), ?r, [])"
    using srv1 gone
    by (simp add: allocate_accepted_tcp_id_def tcp_base_def Let_def rename_absent im_get_update)
  let ?h = "\<lparr>sh_state = new_connected (AcceptedTcp p q (Some 2)) (Some peer), sh_stream = s,
      sh_read_task = dep_task d, sh_parent = Some (TcpServer p)\<rparr>"
  obtain r2 e2 where ins: "insert_stream ?h ?r = (r2, e2)" by (cases "insert_stream ?h ?r")
  note w = insert_stream_views [OF ins]
  have "handle_accepted d (TcpServer p) ?old peer s r1 = Some (r2, [] @ rename_line (Some (Renamed ?one ?old)) @
      [SpawnRead (dep_task d) (AcceptedTcp p q (Some 2))] @ e2 @
      [Display (''['' @ show_id (AcceptedTcp p q (Some 2)) @ ''] ACCEPT peer='' @ render_peer peer)])"
    by (simp add: handle_accepted_def al ins Let_def)
  moreover have "vget r1 ?one = None" using wf_no_server [OF wf1] by simp
  then have "\<not> registered r1 ?one \<and> \<not> registered r2 ?one"
    using one by (simp add: im_contains_def w im_get_update same_id_path_free)
  moreover have "im_contains (streams r2) (AcceptedTcp p q (Some 2))" by (simp add: im_contains_def w)
  ultimately show ?thesis by (auto simp: rename_line_def simp del: show_id.simps)
qed

theorem reconnect_reports_renaming_witness:
  "\<exists>r1 e1 r2 e2. handle_event (EvClosed (AcceptedTcp 80 5 None)) sample = (r1, e1) \<and>
     handle_accepted sample_deps (TcpServer 80) (AcceptedTcp 80 5 None) (TcpSocket ''h:5'') [] r1 = Some (r2, e2) \<and>
     im_contains (streams r2) (AcceptedTcp 80 5 (Some 2)) \<and> \<not> registered r2 (AcceptedTcp 80 5 (Some 1))"
proof -
  obtain r1 e1 where cl: "handle_event (EvClosed (AcceptedTcp 80 5 None)) sample = (r1, e1)"
    by (cases "handle_event (EvClosed (AcceptedTcp 80 5 None)) sample")
  from reconnect_reports_renaming [OF wf_sample sample_first cl, of sample_deps "TcpSocket ''h:5''" "[]"] cl
  show ?thesis by blast
qed

end
