(* ===== verification/Cli.thy ===== *)
theory Cli
  imports Line_Parser
begin

text \<open>
  The process shell around the registry: the argument parser (\<open>repl/args.rs\<close>), the stderr logger
  (\<open>infra/logger.rs\<close>), one turn of the input loop (\<open>repl/input.rs\<close>), the display task (\<open>repl/display.rs\<close>) and the start and end of
  \<open>main\<close> (\<open>main.rs\<close>).
\<close>

section \<open>Arguments\<close>

record cli_args =
  log_level :: u8
  help_requested :: bool

datatype cli_error = Unknown string | BadValue string

fun show_cli_error :: "cli_error \<Rightarrow> string" where
  "show_cli_error (Unknown s) = ''unknown argument: '' @ s"
| "show_cli_error (BadValue s) = ''invalid value: '' @ s"

definition level_of :: "string \<Rightarrow> u8 option" where
  "level_of v =
     (if v = ''trace'' then Some 0 else if v = ''info'' then Some 1
      else if v = ''warn'' then Some 2 else if v = ''error'' then Some 3 else None)"

fun parse_args :: "cli_args \<Rightarrow> string list \<Rightarrow> cli_error + cli_args" where
  "parse_args acc [] = Ok acc"
| "parse_args acc (a # rest) =
     (if a = ''--help'' \<or> a = ''-h'' then parse_args (acc\<lparr>help_requested := True\<rparr>) rest
      else (case strip_prefix ''--log-level='' a of
              Some v \<Rightarrow>
                (case level_of v of
                   Some n \<Rightarrow> parse_args (acc\<lparr>log_level := n\<rparr>) rest
                 | None \<Rightarrow> Err (BadValue a))
            | None \<Rightarrow> Err (Unknown a)))"

definition parse_slice :: "string list \<Rightarrow> cli_error + cli_args" where
  "parse_slice argv = parse_args \<lparr>log_level = 1, help_requested = False\<rparr> argv"

definition usage :: string where
  "usage = ''usage: wiredock [--log-level=trace|info|warn|error] [--help]\<newline>\<newline>'' @
     ''Interactive CLI to test software over TCP and Unix-domain sockets.\<newline>'' @
     ''Type commands at the prompt. See docs for the full command set.\<newline>''"

section \<open>Logger\<close>

text \<open>What one call writes to stderr: nothing below the minimum level, else one line.\<close>

definition log_write :: "u8 \<Rightarrow> u8 \<Rightarrow> string \<Rightarrow> string \<Rightarrow> string list" where
  "log_write min_level level_num tag msg =
     (if level_num < min_level then [] else [''['' @ tag @ ''] '' @ msg @ ''\<newline>''])"

definition log_info :: "u8 \<Rightarrow> string \<Rightarrow> string list" where
  "log_info min_level msg = log_write min_level 1 ''INFO '' msg"

definition log_warn :: "u8 \<Rightarrow> string \<Rightarrow> string list" where
  "log_warn min_level msg = log_write min_level 2 ''WARN '' msg"

definition log_error :: "u8 \<Rightarrow> string \<Rightarrow> string list" where
  "log_error min_level msg = log_write min_level 3 ''ERROR'' msg"

section \<open>The input loop\<close>

text \<open>
  What \<open>Reedline::read_line\<close> returns: a line, the two ways to leave, another signal, or an error.
\<close>

datatype signal = Success string | CtrlC | CtrlD | OtherSignal | ReadLineError string

text \<open>
  What becomes of a command that is sent to the registry: its channel is closed, it drops the
  reply channel, it answers, or it never does and the loop waits for the answer forever.
\<close>

datatype registry_answer = ChannelClosed | ReplyDropped | Answer command_outcome | NeverAnswered

datatype repl_action =
    SendCommand command
  | SendShutdown
  | Show string
  | ReplWarn string
  | ReplError string

text \<open>
  One turn: the actions in order, and whether the loop goes on to the next signal. The answer is the
  one to the command of this turn, if it sends one; another turn with the same command has its own.
\<close>

fun repl_turn :: "signal \<Rightarrow> registry_answer \<Rightarrow> repl_action list \<times> bool" where
  "repl_turn (Success line) answer =
     (case parse_line line of
        Inr None \<Rightarrow> ([], True)
      | Inr (Some c) \<Rightarrow>
          (case answer of
             ChannelClosed \<Rightarrow> ([SendCommand c, ReplWarn ''registry channel closed''], False)
           | Answer out \<Rightarrow>
               ([SendCommand c, Show ((if success out then ''OK'' else ''ERR'') @ '' '' @ message out)], True)
           | ReplyDropped \<Rightarrow> ([SendCommand c, ReplWarn ''command reply dropped by registry''], True)
           | NeverAnswered \<Rightarrow> ([SendCommand c], False))
      | Inl e \<Rightarrow> ([Show (''ERR '' @ show_repl_error e)], True))"
| "repl_turn CtrlC _ = ([SendShutdown], False)"
| "repl_turn CtrlD _ = ([SendShutdown], False)"
| "repl_turn OtherSignal _ = ([], True)"
| "repl_turn (ReadLineError e) _ = ([ReplError (''reedline error: '' @ e), SendShutdown], False)"

text \<open>The loop, over the signals of a session with the answers given at the time.\<close>

fun repl_loop :: "(signal \<times> registry_answer) list \<Rightarrow> repl_action list" where
  "repl_loop [] = []"
| "repl_loop ((x, answer) # xs) =
     (let (out, continue) = repl_turn x answer in out @ (if continue then repl_loop xs else []))"

section \<open>The process\<close>

text \<open>
  \<open>main\<close> after it has read its arguments. The two things the final \<open>select\<close> waits for are the
  argument \<open>arbiter\<close>: Ctrl+C from the operating system, or the end of the registry task, with the
  text of its panic if it had one. The result is what \<open>main\<close> does, in order, and the exit code.
\<close>

datatype arbiter = OsCtrlC | RegistryDone "string option"

datatype main_action =
    Stderr string
  | SpawnDisplay
  | SpawnRegistry
  | SpawnRepl
  | MainSendShutdown
  | AwaitRegistry
  | AbortRepl

definition main_run :: "string list \<Rightarrow> arbiter \<Rightarrow> main_action list \<times> nat" where
  "main_run argv arb =
     (case parse_slice argv of
        Inl e \<Rightarrow> ([Stderr (show_cli_error e @ ''\<newline>''), Stderr (usage @ ''\<newline>'')], 2)
      | Inr a \<Rightarrow>
          if help_requested a then ([Stderr (usage @ ''\<newline>'')], 0)
          else
            (map Stderr (log_info (log_level a) ''wiredock starting'') @
             [SpawnDisplay, SpawnRegistry, SpawnRepl] @
             (case arb of
                OsCtrlC \<Rightarrow>
                  map Stderr (log_info (log_level a) ''ctrl-c received from OS'') @
                  [MainSendShutdown, AwaitRegistry]
              | RegistryDone None \<Rightarrow> []
              | RegistryDone (Some e) \<Rightarrow>
                  map Stderr (log_error (log_level a) (''registry task panicked: '' @ e))) @
             [AbortRepl] @
             map Stderr (log_info (log_level a) ''wiredock exited cleanly''), 0))"

section \<open>The display task\<close>

text \<open>
  The body of the task that \<open>spawn_display_task\<close> (\<open>repl/display.rs\<close>) spawns, over the lines that
  arrive until the channel closes. The printer of the line editor is a parameter: whether it took the
  line, and its state afterwards.
\<close>

fun display_task :: "('p \<Rightarrow> string \<Rightarrow> bool \<times> 'p) \<Rightarrow> string list \<Rightarrow> 'p \<Rightarrow> 'p" where
  "display_task print [] p = p"
| "display_task print (l # ls) p =
     (let (taken, p1) = print p l in if taken then display_task print ls p1 else p1)"

lemma display_task_prints:
  assumes "\<And>p l. print p l = (takes l, p @ [l])"
  shows "display_task print ls p = p @ takeWhile takes ls @ take 1 (dropWhile takes ls)"
  by (induction ls arbitrary: p) (simp_all add: assms)

end
