(* ===== verification/Cli_Properties.thy ===== *)
theory Cli_Properties
  imports Cli
begin

text \<open>
  Properties of the process shell: the argument parser against a specification by filters, and what
  the input loop sends and shows in a session.
\<close>

section \<open>Arguments\<close>

definition is_help :: "string \<Rightarrow> bool" where
  "is_help a \<longleftrightarrow> a = ''--help'' \<or> a = ''-h''"

definition arg_level :: "string \<Rightarrow> u8 option" where
  "arg_level a = Option.bind (strip_prefix ''--log-level='' a) level_of"

definition arg_error :: "string \<Rightarrow> cli_error" where
  "arg_error a = (if starts_with ''--log-level='' a then BadValue a else Unknown a)"

lemma help_no_level: "is_help a \<Longrightarrow> strip_prefix ''--log-level='' a = None"
  by (auto simp: is_help_def)

lemma parse_args_eq:
  "parse_args acc argv =
     (case find (\<lambda>a. \<not> is_help a \<and> arg_level a = None) argv of
        Some a \<Rightarrow> Err (arg_error a)
      | None \<Rightarrow> Ok \<lparr>log_level = last (log_level acc # List.map_filter arg_level argv),
          help_requested = help_requested acc \<or> list_ex is_help argv\<rparr>)"
proof (induction argv arbitrary: acc)
  case Nil
  then show ?case by simp
next
  case (Cons a argv)
  consider (flag) "is_help a"
    | (level) v n where "\<not> is_help a" "strip_prefix ''--log-level='' a = Some v" "level_of v = Some n"
    | (bad) v where "\<not> is_help a" "strip_prefix ''--log-level='' a = Some v" "level_of v = None"
    | (unknown) "\<not> is_help a" "strip_prefix ''--log-level='' a = None"
    by (metis option.exhaust)
  then show ?case
  proof cases
    case flag
    then have "arg_level a = None" by (simp add: arg_level_def help_no_level)
    with flag show ?thesis
      by (simp add: Cons.IH is_help_def [symmetric] List.map_filter_simps split: option.split)
  next
    case level
    then have "arg_level a = Some n" by (simp add: arg_level_def)
    with level show ?thesis
      by (simp add: Cons.IH is_help_def [symmetric] List.map_filter_simps split: option.split)
  next
    case bad
    then show ?thesis
      by (simp add: is_help_def [symmetric] arg_level_def arg_error_def starts_with_def)
  next
    case unknown
    then show ?thesis
      by (simp add: is_help_def [symmetric] arg_level_def arg_error_def starts_with_def)
  qed
qed

text \<open>C37: The arguments are accepted exactly when each is a help flag or sets a known level; the last
  level given counts, \<open>info\<close> when there is none, and otherwise the first bad argument is reported.\<close>

theorem arguments_spec:
  "parse_slice argv =
     (case find (\<lambda>a. \<not> is_help a \<and> arg_level a = None) argv of
        Some a \<Rightarrow> Err (arg_error a)
      | None \<Rightarrow> Ok \<lparr>log_level = last (1 # List.map_filter arg_level argv),
          help_requested = list_ex is_help argv\<rparr>)"
  by (simp add: parse_slice_def parse_args_eq cong: option.case_cong)

section \<open>The input loop\<close>

text \<open>The command that a signal carries, if it is a line that parses to one.\<close>

fun typed :: "signal \<Rightarrow> command list" where
  "typed (Success line) = (case parse_line line of Inr (Some c) \<Rightarrow> [c] | _ \<Rightarrow> [])"
| "typed _ = []"

fun parse_failure :: "signal \<Rightarrow> repl_error list" where
  "parse_failure (Success line) = (case parse_line line of Inl e \<Rightarrow> [e] | _ \<Rightarrow> [])"
| "parse_failure _ = []"

fun asks_to_leave :: "signal \<Rightarrow> bool" where
  "asks_to_leave CtrlC = True"
| "asks_to_leave CtrlD = True"
| "asks_to_leave (ReadLineError _) = True"
| "asks_to_leave _ = False"

text \<open>A session goes on unless the signal asks to leave, or the command is not taken or not answered.\<close>

fun goes_on :: "signal \<times> registry_answer \<Rightarrow> bool" where
  "goes_on (x, answer) \<longleftrightarrow>
     \<not> asks_to_leave x \<and> (typed x = [] \<or> answer \<noteq> ChannelClosed \<and> answer \<noteq> NeverAnswered)"

fun answered :: "registry_answer \<Rightarrow> string list" where
  "answered (Answer out) = [(if success out then ''OK '' else ''ERR '') @ message out]"
| "answered _ = []"

text \<open>What passes between user and registry: each command and the line that answers it, each bad line
  and its error.\<close>

fun exchange :: "signal \<times> registry_answer \<Rightarrow> repl_action list" where
  "exchange (x, answer) =
     concat (map (\<lambda>c. SendCommand c # map Show (answered answer)) (typed x)) @
     map (\<lambda>e. Show (''ERR '' @ show_repl_error e)) (parse_failure x)"

fun visible :: "repl_action \<Rightarrow> bool" where
  "visible (SendCommand _) = True"
| "visible (Show _) = True"
| "visible _ = False"

lemma visible_turn: "filter visible (fst (repl_turn x answer)) = exchange (x, answer)"
  by (cases x) (auto split: sum.split option.split registry_answer.split)

lemma shutdown_turn:
  "filter (\<lambda>a. a = SendShutdown) (fst (repl_turn x answer)) = (if asks_to_leave x then [SendShutdown] else [])"
  by (cases x) (auto split: sum.split option.split registry_answer.split)

lemma asks_turn: "asks_to_leave x \<Longrightarrow> \<not> goes_on (x, answer) \<and> last (fst (repl_turn x answer)) = SendShutdown"
  by (cases x) simp_all

lemma goes_on_turn: "snd (repl_turn x answer) = goes_on (x, answer)"
  by (cases x) (auto split: sum.split option.split registry_answer.split)

lemma repl_loop_Cons:
  "repl_loop ((x, answer) # xs) =
     fst (repl_turn x answer) @ (if goes_on (x, answer) then repl_loop xs else [])"
  unfolding goes_on_turn [symmetric] by (simp split: prod.split)

text \<open>C38: In a session in which the registry may answer every command differently, the input loop
  sends the commands that the lines parse to, in order and each once, and shows after each the answer
  that was given to it, and an error for a line that does not parse, up to the signal that ends it. It
  asks the registry to shut down once if that signal asks to leave or is an error of the line editor,
  and never otherwise, and does nothing after that.\<close>

theorem repl_loop_sends:
  "filter visible (repl_loop xs) =
     concat (map exchange (takeWhile goes_on xs @ take 1 (dropWhile goes_on xs))) \<and>
   filter (\<lambda>a. a = SendShutdown) (repl_loop xs) =
     (if list_ex (\<lambda>x. asks_to_leave (fst x)) (take 1 (dropWhile goes_on xs)) then [SendShutdown] else []) \<and>
   (if list_ex (\<lambda>x. asks_to_leave (fst x)) (take 1 (dropWhile goes_on xs))
    then last (repl_loop xs) = SendShutdown else True)"
proof (induction xs)
  case Nil
  then show ?case by simp
next
  case (Cons xa xs)
  obtain x answer where xa: "xa = (x, answer)" by (cases xa)
  show ?case
  proof (cases "goes_on xa")
    case True
    then have "\<not> asks_to_leave x" using asks_turn xa by blast
    moreover have "repl_loop xs \<noteq> []" if "list_ex (\<lambda>x. asks_to_leave (fst x)) (take 1 (dropWhile goes_on xs))"
      using Cons.IH that by (metis filter.simps(1) list.distinct(1))
    ultimately show ?thesis
      using Cons.IH True unfolding xa repl_loop_Cons
      by (auto simp: visible_turn shutdown_turn simp del: goes_on.simps exchange.simps split: if_splits)
  next
    case False
    then show ?thesis
      using asks_turn [of x answer] unfolding xa repl_loop_Cons
      by (auto simp: visible_turn shutdown_turn simp del: goes_on.simps exchange.simps)
  qed
qed

end
