(* ===== verification/Infra.thy ===== *)
theory Infra
  imports Runtime
begin

text \<open>
  The tokio transports (\<open>infra/connector.rs\<close>, \<open>infra/listener.rs\<close>, \<open>infra/peercred.rs\<close>,
  \<open>infra/fs_cleanup.rs\<close>): what they do with the answers of the operating system. The calls into
  tokio are the record \<open>net_ops\<close>, a parameter of every definition.
\<close>

section \<open>Calls into tokio\<close>

text \<open>
  \<open>SocketAddr\<close> values that come from tokio are of type \<open>'a\<close>; the two local addresses that the code
  writes itself are \<open>local_addr\<close>. A socket is of type \<open>'k\<close>, a connected stream of type \<open>'s\<close>.
\<close>

datatype local_addr = AnyV4 u16 | AnyV6 u16

record ('a, 'k, 's) net_ops =
  net_lookup_host :: "string \<Rightarrow> io_error + 'a list"
  net_is_ipv6 :: "'a \<Rightarrow> bool"
  net_new_v4 :: "io_error + 'k"
  net_new_v6 :: "io_error + 'k"
  net_bind_socket :: "'k \<Rightarrow> local_addr \<Rightarrow> io_error + unit"
  net_connect_socket :: "'k \<Rightarrow> 'a \<Rightarrow> io_error + 's"
  net_unix_connect :: "path \<Rightarrow> io_error + 's"
  net_tcp_bind :: "u16 \<Rightarrow> io_error + accept_loop"
  net_unix_bind :: "path \<Rightarrow> io_error + accept_loop"

section \<open>Connector\<close>

text \<open>
  \<open>str::parse::<SocketAddr>\<close>, on the two texts that the code parses: the unspecified address of
  either family, a colon and a decimal port. Any other text counts as malformed here.
\<close>

definition parse_local :: "string \<Rightarrow> local_addr option" where
  "parse_local s =
     (case strip_prefix ''[::]:'' s of
        Some p \<Rightarrow> map_option AnyV6 (parse_u16 p)
      | None \<Rightarrow> map_option AnyV4 (Option.bind (strip_prefix ''0.0.0.0:'' s) parse_u16))"

text \<open>The \<open>map_err\<close> of both binds.\<close>

definition bind_error :: "string \<Rightarrow> io_error \<Rightarrow> infra_error" where
  "bind_error what e = (if ioe_kind e = AddrInUse then AddressInUse what else InfraIo e)"

definition connect_tcp_infra ::
  "('a, 'k, 's) net_ops \<Rightarrow> u16 \<Rightarrow> string \<Rightarrow> u16 \<Rightarrow> infra_error + 's" where
  "connect_tcp_infra net lport host rport =
     (let remote_str = host @ '':'' @ show_word rport in
      and_then (map_err InfraIo (net_lookup_host net remote_str)) (\<lambda>addrs.
      case addrs of
        [] \<Rightarrow> Err (InvalidEndpoint remote_str)
      | remote # _ \<Rightarrow>
          and_then (map_err InfraIo (if net_is_ipv6 net remote then net_new_v6 net else net_new_v4 net)) (\<lambda>socket.
          and_then
            (if net_is_ipv6 net remote
             then ok_or (InvalidEndpoint ''local ipv6: invalid socket address syntax'')
                    (parse_local (''[::]:'' @ show_word lport))
             else ok_or (InvalidEndpoint ''local ipv4: invalid socket address syntax'')
                    (parse_local (''0.0.0.0:'' @ show_word lport))) (\<lambda>local.
          and_then (map_err (bind_error (show_word lport)) (net_bind_socket net socket local)) (\<lambda>_.
          map_err InfraIo (net_connect_socket net socket remote))))))"

definition connect_tcp :: "('a, 'k, 's) net_ops \<Rightarrow> u16 \<Rightarrow> string \<Rightarrow> u16 \<Rightarrow> domain_error + 's" where
  "connect_tcp net lport host rport = map_err domain_of_infra (connect_tcp_infra net lport host rport)"



section \<open>Listener\<close>



text \<open>The answers of \<open>accept\<close>: the stream and the peer address as text, and, for IPC, \<open>peer_cred\<close>.\<close>

definition tcp_accept :: "io_error + 's \<times> string \<Rightarrow> domain_error + 's accepted_stream" where
  "tcp_accept res =
     map_err (\<lambda>e. domain_of_infra (InfraIo e))
       (and_then res (\<lambda>(s, addr). Ok \<lparr>as_stream = s, as_peer_info = TcpSocket addr\<rparr>))"

definition peer_pid :: "io_error + i32 option \<Rightarrow> io_error + i32" where
  "peer_pid cred =
     and_then cred (\<lambda>pid. ok_or \<lparr>ioe_kind = OtherKind, ioe_text = ''peer_cred returned no pid''\<rparr> pid)"

definition ipc_accept ::
  "('s \<Rightarrow> io_error + i32 option) \<Rightarrow> io_error + 's \<Rightarrow> domain_error + 's accepted_stream" where
  "ipc_accept peer_cred res =
     map_err domain_of_infra
       (and_then (map_err InfraIo res) (\<lambda>s.
        and_then (map_err (\<lambda>e. PeerCred (ioe_text e)) (peer_pid (peer_cred s))) (\<lambda>pid.
        Ok \<lparr>as_stream = s, as_peer_info = IpcPid pid\<rparr>)))"

section \<open>The dependencies of the registry task\<close>


section \<open>Facts\<close>

lemma parse_local_any:
  "parse_local (''[::]:'' @ show_word p) = Some (AnyV6 p)"
  "parse_local (''0.0.0.0:'' @ show_word p) = Some (AnyV4 p)"
  unfolding parse_local_def strip_prefix_append by simp_all

lemma and_then_Err_iff: "and_then r f = Inl e \<longleftrightarrow> r = Inl e \<or> (\<exists>x. r = Inr x \<and> f x = Inl e)"
  by (cases r) auto

lemma map_err_Err_iff: "map_err f r = Inl e \<longleftrightarrow> (\<exists>e'. r = Inl e' \<and> e = f e')"
  by (cases r) auto

lemma connect_tcp_infra_Err:
  assumes "connect_tcp_infra net lport host rport = Err e"
  shows "(\<exists>i. e = InfraIo i) \<or> e = InvalidEndpoint (host @ '':'' @ show_word rport) \<or>
     (\<exists>k l i. net_bind_socket net k l = Err i \<and> e = bind_error (show_word lport) i \<and>
        l \<in> {AnyV4 lport, AnyV6 lport})"
proof -
  have local: "(if six then ok_or x (parse_local (''[::]:'' @ show_word lport))
      else ok_or y (parse_local (''0.0.0.0:'' @ show_word lport))) =
    Ok (if six then AnyV6 lport else AnyV4 lport)" for six x y
    unfolding parse_local_any by simp
  show ?thesis
  proof (cases "net_lookup_host net (host @ '':'' @ show_word rport)")
    case (Inl i)
    with assms show ?thesis by (auto simp: connect_tcp_infra_def)
  next
    case (Inr addrs)
    show ?thesis
    proof (cases addrs)
      case Nil
      with assms Inr show ?thesis by (auto simp: connect_tcp_infra_def)
    next
      case (Cons remote rest)
      with Inr assms show ?thesis
        unfolding connect_tcp_infra_def Let_def local
        by (cases "net_is_ipv6 net remote") (auto simp: and_then_Err_iff map_err_Err_iff)
    qed
  qed
qed

text \<open>Connecting a TCP client fails with \<open>IdAlreadyInUse\<close> exactly when binding the local port says
  so, and then names the local port; every other failure is an \<open>Io\<close> error. The local address that the
  code writes always parses.\<close>

lemma connect_error_kinds:
  "connect_tcp net lport host rport = Err e \<Longrightarrow>
     (case e of
        IdAlreadyInUse s \<Rightarrow> s = show_word lport \<and>
          (\<exists>k l b. net_bind_socket net k l = Err b \<and> ioe_kind b = AddrInUse \<and>
             l \<in> {AnyV4 lport, AnyV6 lport})
      | Io _ \<Rightarrow> True
      | _ \<Rightarrow> False)"
proof -
  assume "connect_tcp net lport host rport = Err e"
  then obtain e' where "connect_tcp_infra net lport host rport = Err e'" "e = domain_of_infra e'"
    by (auto simp: connect_tcp_def map_err_Err_iff)
  with connect_tcp_infra_Err [OF this(1)] show ?thesis
    by (auto simp: bind_error_def split: if_splits) blast+
qed

text \<open>C36: No accepted connection is lost between the operating system and the registry: whatever
  \<open>accept\<close> answers, the accept task of a TCP or IPC server sends exactly one input, a connection under
  the port of its peer's address or under the peer's process number, or an error of the server.\<close>

theorem accept_never_lost:
  "accept_tcp_turn p i (tcp_accept (Ok (s, host @ '':'' @ show_word q))) =
     [Accepted i (AcceptedTcp p q None) (TcpSocket (host @ '':'' @ show_word q)) s] \<and>
   accept_tcp_turn p i (tcp_accept (Err e)) =
     [Event (EvError i (''accept failed: io error: io error: '' @ ioe_text e))] \<and>
   accept_ipc_turn path i (ipc_accept cred (Err e)) =
     [Event (EvError i (''accept failed: io error: io error: '' @ ioe_text e))] \<and>
   accept_ipc_turn path i (ipc_accept cred (Ok s)) =
     (case cred s of
        Inr (Some pid) \<Rightarrow> [Accepted i (AcceptedIpc path pid None) (IpcPid pid) s]
      | Inr None \<Rightarrow> [Event (EvError i ''accept failed: io error: peercred failed: peer_cred returned no pid'')]
      | Inl c \<Rightarrow> [Event (EvError i (''accept failed: io error: peercred failed: '' @ ioe_text c))])"
  by (simp add: tcp_accept_def ipc_accept_def peer_pid_def parse_remote_port_def rfind_char_append
      notin_show_nat split: sum.split option.split)

section \<open>What the handlers rely on\<close>

text \<open>
  The contract of the traits \<open>Connector\<close> and \<open>Listener\<close>: their errors say that an address is in
  use, or are errors of the operating system. The handlers of the open commands pass them on.
\<close>

fun transport_error :: "domain_error \<Rightarrow> bool" where
  "transport_error (IdAlreadyInUse _) = True"
| "transport_error (Io _) = True"
| "transport_error _ = False"


definition same_maps :: "'s registry \<Rightarrow> 's registry \<Rightarrow> bool" where
  "same_maps r r' \<longleftrightarrow> streams r' = streams r \<and> servers r' = servers r \<and> labels r' = labels r"


text \<open>The result of a command that is refused because of such an error.\<close>

definition refused :: "path list \<Rightarrow> 's registry \<Rightarrow> 's command_result \<Rightarrow> bool" where
  "refused files r res \<longleftrightarrow>
     (\<exists>err r0. transport_error err \<and> same_maps r r0 \<and> res = removing files (fail_with err r0))"

lemma removing_none: "removing [] res = res"
  by (simp add: removing_def split: prod.split)

lemma refusedI [intro]:
  "transport_error err \<Longrightarrow> same_maps r r0 \<Longrightarrow> refused files r (removing files (fail_with err r0))"
  "transport_error err \<Longrightarrow> same_maps r r0 \<Longrightarrow> refused [] r (fail_with err r0)"
  unfolding refused_def by (blast, metis removing_none)

lemma same_maps_simps [simp]: "same_maps r r" "same_maps r (r\<lparr>next_ipc_client_seq := n\<rparr>)"
  by (simp_all add: same_maps_def)

lemma success_removing [simp]: "success (fst (removing files res)) = success (fst res)"
  by (simp add: removing_def split: prod.split)












end
