(* ===== verification/Refinement.thy ===== *)
theory Refinement
  imports Samples Codec_Properties
begin

text \<open>
  The registry as its user sees it: which identifiers are there, which server each belongs to and
  which label each carries. The operations of the registry, with their two maps, child sets and
  label table, implement the operations on this view.
\<close>

section \<open>The abstract registry\<close>

record abs_entry =
  ae_parent :: "conn_key option"
  ae_label :: "string option"

type_synonym abs_registry = "connection_id \<Rightarrow> abs_entry option"

definition abs_stream :: "'s stream_handle \<Rightarrow> abs_entry" where
  "abs_stream h = \<lparr>ae_parent = map_option key (sh_parent h), ae_label = cs_label (sh_state h)\<rparr>"

definition abs_server :: "server_handle \<Rightarrow> abs_entry" where
  "abs_server s = \<lparr>ae_parent = None, ae_label = cs_label (sv_state s)\<rparr>"

definition abs_reg :: "'s registry \<Rightarrow> abs_registry" where
  "abs_reg r i =
     (case im_get (streams r) i of
        Some h \<Rightarrow> Some (abs_stream h)
      | None \<Rightarrow> map_option abs_server (im_get (servers r) i))"

section \<open>Its operations\<close>

definition abs_add :: "connection_id \<Rightarrow> abs_entry \<Rightarrow> abs_registry \<Rightarrow> abs_registry" where
  "abs_add i e A j = (if same_id i j then Some e else A j)"

definition abs_close :: "connection_id \<Rightarrow> abs_registry \<Rightarrow> abs_registry" where
  "abs_close p A j =
     (case A j of
        None \<Rightarrow> None
      | Some e \<Rightarrow> if same_id p j \<or> ae_parent e = Some (key p) then None else Some e)"

definition abs_label :: "connection_id \<Rightarrow> string \<Rightarrow> abs_registry \<Rightarrow> abs_registry" where
  "abs_label i n A j = (if same_id i j then map_option (ae_label_update (\<lambda>_. Some n)) (A j) else A j)"

definition abs_rename :: "connection_id \<Rightarrow> connection_id \<Rightarrow> abs_registry \<Rightarrow> abs_registry" where
  "abs_rename old new A j =
     (if same_id new j then A old else if same_id old j then None else A j)"

section \<open>The operations of the registry implement them\<close>

lemma abs_stream_simps [simp]:
  "ae_parent (abs_stream h) = map_option key (sh_parent h)" "ae_label (abs_stream h) = cs_label (sh_state h)"
  "ae_parent (abs_server s) = None" "ae_label (abs_server s) = cs_label (sv_state s)"
  by (simp_all add: abs_stream_def abs_server_def)

lemma abs_server_map_children [simp]: "abs_server (map_children f s) = abs_server s"
  by (simp add: abs_server_def)

lemma map_abs_server_children [simp]:
  "map_option (abs_server \<circ> map_children f) x = map_option abs_server x"
  by (cases x) simp_all

lemma has_parent_key: "has_parent p h \<longleftrightarrow> ae_parent (abs_stream h) = Some (key p)"
  by (cases "sh_parent h") (auto simp: has_parent_def same_id_def)

lemma stream_parent_server:
  assumes "wf_reg r" and "sget r j = Some h" and "has_parent p h"
  shows "is_server p"
proof -
  have "slot_ok r (cs_id (sh_state h)) (sh_parent h)" using assms(1,2) by (simp add: wf_reg_def wf_slots_def)
  then obtain q where "parent_matches (sh_parent h) q" "is_server q"
    using assms(3) slot_is_server
    by (cases "slot (cs_id (sh_state h))") (auto simp: slot_ok_def has_parent_def)
  with assms(3) obtain q' where "same_id q' p" "same_id q' q"
    by (auto simp: parent_matches_def has_parent_def)
  with same_id_is_server \<open>is_server q\<close> show ?thesis by metis
qed

lemma abs_insert_stream:
  assumes "insert_stream h r = (r', e)"
  shows "abs_reg r' = abs_add (cs_id (sh_state h)) (abs_stream h) (abs_reg r)"
proof
  fix j
  show "abs_reg r' j = abs_add (cs_id (sh_state h)) (abs_stream h) (abs_reg r) j"
    by (auto simp: abs_reg_def abs_add_def insert_stream_views [OF assms] option.map_comp split: option.split)
qed

lemma abs_drop_stream:
  assumes wf: "wf_reg r" and dr: "drop_stream i r = (r', e)" and i: "\<not> is_server i"
  shows "abs_reg r' = abs_close i (abs_reg r)"
proof
  fix j
  have core: "wf_core r" using wf by (simp add: wf_reg_def)
  note v = drop_stream_views [OF dr]
  have vj: "map_option abs_server (vget r' j) = map_option abs_server (vget r j)"
    by (simp add: v option.map_comp)
  show "abs_reg r' j = abs_close i (abs_reg r) j"
  proof (cases "sget r j")
    case None
    have "vget r j = None" if "same_id i j"
      using wf_no_server [OF core, of j] i same_id_is_server [OF that] by simp
    with None vj show ?thesis
      by (cases "vget r j") (auto simp: abs_reg_def abs_close_def v(1))
  next
    case (Some h)
    have "\<not> has_parent i h" using stream_parent_server [OF wf Some] i by blast
    then show ?thesis
      using wf_not_both [OF core Some] Some vj has_parent_key [of i h]
      by (auto simp: abs_reg_def abs_close_def v(1))
  qed
qed

lemma abs_drop_server:
  assumes wf: "wf_reg r" and dr: "drop_server p r = (r', e)" and p: "im_contains (servers r) p"
  shows "abs_reg r' = abs_close p (abs_reg r)"
proof
  fix j
  have core: "wf_core r" using wf by (simp add: wf_reg_def)
  from p obtain s where s: "vget r p = Some s" by (auto simp: im_contains_def)
  note v = drop_server_views [OF core s dr]
  show "abs_reg r' j = abs_close p (abs_reg r) j"
  proof (cases "sget r j")
    case None
    then show ?thesis by (auto simp: abs_reg_def abs_close_def v split: option.split)
  next
    case (Some h)
    have "\<not> same_id p j"
      using wf_not_both [OF core Some] s im_get_same [of p j "servers r"] by auto
    then show ?thesis
      using Some wf_core_child [OF core s, of j] wf_not_both [OF core Some]
      by (auto simp: abs_reg_def abs_close_def v has_parent_key)
  qed
qed

lemma abs_apply_label:
  assumes wf: "wf_reg r" and ap: "apply_label i n r = (res, r')"
  shows "abs_reg r' = (if is_ok res then abs_label i n (abs_reg r) else abs_reg r)"
proof -
  have core: "wf_core r" using wf by (simp add: wf_reg_def)
  consider (taken) ex where "labels r n = Some ex" "\<not> same_id ex i"
    | (unknown) "\<not> registered r i" "\<And>ex. labels r n = Some ex \<Longrightarrow> same_id ex i"
    | (ok) "registered r i" "\<And>ex. labels r n = Some ex \<Longrightarrow> same_id ex i"
    by blast
  then show ?thesis
  proof cases
    case ok
    note v = apply_label_ok_views [OF ok core ap]
    have "abs_stream (label_stream n h) = (abs_stream h)\<lparr>ae_label := Some n\<rparr>" for h :: "'a stream_handle"
      by (simp add: abs_stream_def)
    moreover have "abs_server (label_server n s) = (abs_server s)\<lparr>ae_label := Some n\<rparr>" for s
      by (simp add: abs_server_def)
    ultimately have "abs_reg r' j = abs_label i n (abs_reg r) j" for j
      by (cases "sget r j"; cases "vget r j") (simp_all add: abs_reg_def abs_label_def v(2,3))
    with v(1) show ?thesis by auto
  qed (use ap in \<open>auto simp: apply_label_taken apply_label_unknown\<close>)
qed

lemma abs_rename_view:
  assumes ren: "rename_accepted_tcp old new r = (r', e)" and h: "sget r old = Some h"
    and none: "\<And>k. same_id old k \<Longrightarrow> vget r k = None"
  shows "abs_reg r' = abs_rename old new (abs_reg r)"
proof
  fix j
  note v = rename_views [OF ren h]
  show "abs_reg r' j = abs_rename old new (abs_reg r) j"
    using none [of j] h
    by (auto simp: abs_reg_def abs_rename_def v abs_stream_def option.map_comp split: option.split)
qed

lemma abs_rename_stream:
  assumes wf: "wf_reg r" and ren: "rename_accepted_tcp old new r = (r', e)"
    and "im_contains (streams r) old"
  shows "abs_reg r' = abs_rename old new (abs_reg r)"
proof -
  from assms(3) obtain h where h: "sget r old = Some h" by (auto simp: im_contains_def)
  have "vget r old = None" using wf by (intro wf_not_both [OF _ h]) (simp add: wf_reg_def)
  then have "vget r k = None" if "same_id old k" for k using that im_get_same by metis
  with abs_rename_view [OF ren h] show ?thesis by blast
qed

text \<open>C32: The operations of the registry implement those of the abstract registry: registering a
  stream adds it; dropping a stream, dropping a server with its children and closing by a token
  remove an identifier and everything that belongs to it; labels and renames are what they say;
  and shutting down leaves nothing.\<close>

theorem registry_refines:
  assumes wf: "wf_reg r"
  shows "abs_reg (fst (insert_stream h r)) = abs_add (cs_id (sh_state h)) (abs_stream h) (abs_reg r) \<and>
     (\<not> is_server i \<longrightarrow> abs_reg (fst (drop_stream i r)) = abs_close i (abs_reg r)) \<and>
     (im_contains (servers r) p \<longrightarrow> abs_reg (fst (drop_server p r)) = abs_close p (abs_reg r)) \<and>
     abs_reg (snd (apply_label j n r)) =
       (if is_ok (fst (apply_label j n r)) then abs_label j n (abs_reg r) else abs_reg r) \<and>
     (im_contains (streams r) old \<longrightarrow>
       abs_reg (fst (rename_accepted_tcp old new r)) = abs_rename old new (abs_reg r)) \<and>
     abs_reg (fst (shutdown r)) = (\<lambda>_. None)"
proof -
  have "abs_reg (fst (shutdown r)) = (\<lambda>_. None)"
    using shutdown_facts(1,2) [OF wf, of "fst (shutdown r)" "snd (shutdown r)"]
    by (auto simp: abs_reg_def fun_eq_iff)
  then show ?thesis
    using abs_insert_stream [of h r] abs_drop_stream [OF wf, of i] abs_drop_server [OF wf, of p]
      abs_apply_label [OF wf, of j n] abs_rename_stream [OF wf, of old new]
    by (metis prod.collapse)
qed

theorem registry_refines_witness:
  "abs_reg (fst (drop_server (TcpServer 80) sample)) = abs_close (TcpServer 80) (abs_reg sample)"
proof -
  have "im_contains (servers sample) (TcpServer 80)" by code_simp
  with registry_refines [OF wf_sample] show ?thesis by blast
qed

lemma close_effect:
  assumes "wf_reg r" and "close_connection tok r = (out, r', e)"
  shows "case resolve_id r tok default_token_parser of
      Inl _ \<Rightarrow> \<not> success out \<and> r' = r
    | Inr i \<Rightarrow> if abs_reg r i = None then \<not> success out \<and> r' = r
        else success out \<and> abs_reg r' = abs_close i (abs_reg r)"
proof (cases "resolve_id r tok default_token_parser")
  case (Inl err)
  with assms(2) show ?thesis by (auto simp: close_connection_def fail_with_def outcome_err_def)
next
  case (Inr i)
  consider (server) "im_contains (servers r) i"
    | (stream) h where "\<not> im_contains (servers r) i" "sget r i = Some h"
    | (none) "\<not> im_contains (servers r) i" "sget r i = None"
    by (cases "sget r i") auto
  then show ?thesis
  proof cases
    case server
    obtain r1 e1 where dr: "drop_server i r = (r1, e1)" by (cases "drop_server i r")
    with assms(2) Inr server have "success out" "r' = r1"
      by (auto simp: close_connection_def outcome_ok_def)
    moreover have "abs_reg r i \<noteq> None"
      using server by (auto simp: abs_reg_def im_contains_def split: option.split)
    ultimately show ?thesis using abs_drop_server [OF assms(1) dr server] Inr by auto
  next
    case stream
    obtain r1 e1 where dr: "drop_stream i r = (r1, e1)" by (cases "drop_stream i r")
    have "\<not> is_server i"
      using wf_core_stream [of r i h] assms(1) stream(2) by (simp add: wf_reg_def stream_entry_ok_def)
    moreover from assms(2) Inr stream dr have "success out" "r' = r1"
      by (auto simp: close_connection_def outcome_ok_def im_contains_def)
    moreover have "abs_reg r i \<noteq> None" using stream(2) by (simp add: abs_reg_def)
    ultimately show ?thesis using abs_drop_stream [OF assms(1) dr] Inr by auto
  next
    case none
    moreover from none have "abs_reg r i = None" by (simp add: abs_reg_def im_contains_def)
    ultimately show ?thesis
      using assms(2) Inr by (auto simp: close_connection_def im_contains_def fail_with_def outcome_err_def)
  qed
qed

text \<open>C33: A close command succeeds exactly when its token resolves to an identifier that the abstract
  registry has, and then closes that identifier with everything that belongs to it; otherwise it changes
  nothing.\<close>

theorem close_refines:
  assumes "wf_reg r" and "close_connection tok r = (out, r', e)"
  shows "case resolve_id r tok default_token_parser of
      Inl _ \<Rightarrow> \<not> success out \<and> r' = r
    | Inr i \<Rightarrow> if abs_reg r i = None then \<not> success out \<and> r' = r
        else success out \<and> abs_reg r' = abs_close i (abs_reg r)"
  using assms by (rule close_effect)

theorem close_refines_witness:
  "\<exists>r'. fst (snd (close_connection ''ipc:1'' sample)) = r' \<and>
     abs_reg r' = abs_close (IpcClient 1) (abs_reg sample) \<and> abs_reg sample (IpcClient 1) \<noteq> None"
proof -
  obtain out r' e where cl: "close_connection ''ipc:1'' sample = (out, r', e)"
    by (cases "close_connection ''ipc:1'' sample") auto
  have "resolve_id sample ''ipc:1'' default_token_parser = Ok (IpcClient 1)" by code_simp
  moreover have "im_contains (streams sample) (IpcClient 1)" by code_simp
  then have "abs_reg sample (IpcClient 1) \<noteq> None" by (auto simp: abs_reg_def im_contains_def)
  ultimately show ?thesis using close_refines [OF wf_sample cl] cl by simp
qed

end
