(* ===== verification/Abstract_Machine.thy ===== *)
theory Abstract_Machine
  imports Refinement
begin

text \<open>
  The registry task as a machine on the abstract registry: each input is simulated by steps of an
  inductive relation, and what this relation keeps holds of every registry that a run reaches.
\<close>

section \<open>The registry task as an abstract machine\<close>

text \<open>
  What one input may do to the abstract registry: register an identifier whose parent is there, close an
  identifier with what belongs to it, give a label that no other identifier carries, or rename.
\<close>

definition label_free :: "abs_registry \<Rightarrow> connection_id \<Rightarrow> string \<Rightarrow> bool" where
  "label_free A i n \<longleftrightarrow> (\<forall>j e. A j = Some e \<and> ae_label e = Some n \<longrightarrow> same_id i j)"

inductive abs_step :: "abs_registry \<Rightarrow> abs_registry \<Rightarrow> bool" where
  adds: "ae_label e = None \<Longrightarrow>
     ae_parent e = None \<or>
       \<not> is_server i \<and> (\<exists>p. ae_parent e = Some (key p) \<and> is_server p \<and> A p \<noteq> None) \<Longrightarrow>
     abs_step A (abs_add i e A)"
| closes: "A i \<noteq> None \<Longrightarrow> abs_step A (abs_close i A)"
| labels: "A i \<noteq> None \<Longrightarrow> label_free A i n \<Longrightarrow> abs_step A (abs_label i n A)"
| renames: "A old \<noteq> None \<Longrightarrow> \<not> is_server old \<Longrightarrow> \<not> is_server new \<Longrightarrow> abs_step A (abs_rename old new A)"

section \<open>Operations that the abstract registry does not see\<close>

lemma abs_reg_servers:
  assumes "\<And>s. cs_label (sv_state (f s)) = cs_label (sv_state s)"
  shows "abs_reg (r\<lparr>servers := im_update p f (servers r)\<rparr>) = abs_reg r"
proof
  fix j
  have "abs_server (f s) = abs_server s" for s by (simp add: abs_server_def assms)
  then have "abs_server \<circ> f = abs_server" by (simp add: fun_eq_iff)
  then show "abs_reg (r\<lparr>servers := im_update p f (servers r)\<rparr>) j = abs_reg r j"
    by (simp add: abs_reg_def im_get_update option.map_comp split: option.split)
qed

lemma abs_reg_streams:
  assumes "\<And>h. cs_label (sh_state (f h)) = cs_label (sh_state h)" and "\<And>h. sh_parent (f h) = sh_parent h"
  shows "abs_reg (r\<lparr>streams := im_update p f (streams r)\<rparr>) = abs_reg r"
proof
  fix j
  have "abs_stream (f h) = abs_stream h" for h by (simp add: abs_stream_def assms)
  then show "abs_reg (r\<lparr>streams := im_update p f (streams r)\<rparr>) j = abs_reg r j"
    by (auto simp: abs_reg_def im_get_update split: option.split)
qed

lemma abs_reg_hidden [simp]:
  "abs_reg (r\<lparr>next_ipc_client_seq := n\<rparr>) = abs_reg r"
  "abs_reg (r\<lparr>servers := im_update p (set_base b x) (servers r)\<rparr>) = abs_reg r"
  "abs_reg (r\<lparr>servers := im_update p (set_next b m) (servers r)\<rparr>) = abs_reg r"
  by (simp_all add: abs_reg_servers) (simp add: abs_reg_def fun_eq_iff split: option.split)

lemma abs_write: "write_to_stream io i bytes r = (res, r') \<Longrightarrow> abs_reg r' = abs_reg r"
  by (erule write_to_stream_shape) (simp_all add: abs_reg_streams set_stream_def)

lemma abs_broadcast: "broadcast io cs bytes r = (r', e) \<Longrightarrow> abs_reg r' = abs_reg r"
proof (induction cs arbitrary: r e)
  case (Cons c cs)
  obtain res r1 where 1: "write_to_stream io c bytes r = (res, r1)" by (cases "write_to_stream io c bytes r")
  obtain e2 where 2: "broadcast io cs bytes r1 = (r', e2)"
    using Cons.prems 1 by (cases "broadcast io cs bytes r1") (auto simp: Let_def)
  from Cons.IH [OF 2] abs_write [OF 1] show ?case by simp
qed simp

lemma abs_send: "send_command d tok bytes r = (out, r', e) \<Longrightarrow> abs_reg r' = abs_reg r"
  by (auto simp: send_command_def fail_with_def send_bytes_def Let_def
      split: sum.splits prod.splits if_splits option.splits dest: abs_write abs_broadcast)

section \<open>The simulation\<close>

abbreviation abs_steps :: "abs_registry \<Rightarrow> abs_registry \<Rightarrow> bool" where
  "abs_steps \<equiv> rtranclp abs_step"

lemma abs_steps_eq: "B = A \<Longrightarrow> abs_steps A B"
  by simp

lemma abs_steps_one: "abs_step A B \<Longrightarrow> abs_steps A B"
  by (rule r_into_rtranclp)

lemma start_server_abs:
  assumes wf: "wf_reg r" and st: "start_server i t p al r = (out, r', e)"
    and i: "is_server i" "vget r i = None"
  shows "abs_steps (abs_reg r) (abs_reg r')"
proof -
  note v = start_server_views [OF st i(2)]
  have "sget r j = None" if "same_id i j" for j
    using wf_no_stream [of r j] wf i(1) same_id_is_server [OF that] by (simp add: wf_reg_def)
  then have "abs_reg r' = abs_add i \<lparr>ae_parent = None, ae_label = None\<rparr> (abs_reg r)"
    by (auto simp: fun_eq_iff abs_reg_def abs_add_def v abs_server_def new_server_def new_connected_def
        split: option.split)
  then show ?thesis by (simp add: abs_step.adds abs_steps_one)
qed

lemma insert_stream_abs:
  assumes ins: "insert_stream h r = (r', e)" and "cs_label (sh_state h) = None"
    and "case sh_parent h of None \<Rightarrow> True
       | Some p \<Rightarrow> im_contains (servers r) p \<and> is_server p \<and> \<not> is_server (cs_id (sh_state h))"
  shows "abs_steps (abs_reg r) (abs_reg r')"
  unfolding abs_insert_stream [OF ins]
proof (rule abs_steps_one, rule abs_step.adds)
  show "ae_label (abs_stream h) = None" using assms(2) by simp
  show "ae_parent (abs_stream h) = None \<or> \<not> is_server (cs_id (sh_state h)) \<and>
      (\<exists>p. ae_parent (abs_stream h) = Some (key p) \<and> is_server p \<and> abs_reg r p \<noteq> None)"
    using assms(3) by (cases "sh_parent h") (auto simp: abs_reg_def im_contains_def split: option.split)
qed

lemma label_abs:
  assumes wf: "wf_reg r" and lc: "label_command tok n r = (out, r', e)"
  shows "abs_steps (abs_reg r) (abs_reg r')"
proof (cases "resolve_id r tok default_token_parser")
  case (Inl err)
  with lc show ?thesis by (auto simp: label_command_def fail_with_def)
next
  case (Inr i)
  obtain res r1 where ap: "apply_label i n r = (res, r1)" by (cases "apply_label i n r")
  with lc Inr have r1: "r1 = r'" by (auto simp: label_command_def cmd_label_def split: sum.splits)
  have core: "wf_core r" using wf by (simp add: wf_reg_def)
  have cur: "current_label r j = Some l" if "abs_reg r j = Some e" "ae_label e = Some l" for j e l
    using that wf_not_both [OF core, of j]
    by (auto simp: abs_reg_def current_label_eq split: option.splits)
  show ?thesis
  proof (cases "is_ok res")
    case True
    have reg: "registered r i" and free: "\<And>ex. labels r n = Some ex \<Longrightarrow> same_id ex i"
      using True ap apply_label_taken [of r n _ i] apply_label_unknown [of r i n] by fastforce+
    have "label_free (abs_reg r) i n"
      unfolding label_free_def
    proof (intro allI impI)
      fix j e
      assume "abs_reg r j = Some e \<and> ae_label e = Some n"
      then have j: "current_label r j = Some n" using cur by blast
      then obtain ex where "labels r n = Some ex" using wf by (auto simp: wf_reg_def wf_labels_def)
      from label_entry_carrier [OF wf this free [OF this] reg] j show "same_id i j" by blast
    qed
    moreover have "abs_reg r i \<noteq> None" using reg by (auto simp: abs_reg_def im_contains_def split: option.split)
    ultimately show ?thesis
      using abs_apply_label [OF wf ap] True by (simp add: r1 abs_step.labels abs_steps_one)
  next
    case False
    with abs_apply_label [OF wf ap] show ?thesis by (simp add: r1)
  qed
qed

lemma close_abs:
  assumes "wf_reg r" and "close_connection tok r = (out, r', e)"
  shows "abs_steps (abs_reg r) (abs_reg r')"
  using close_effect [OF assms]
  by (auto intro!: abs_steps_one abs_step.closes split: sum.splits if_splits)

lemma command_abs:
  assumes wf: "wf_reg r" and hc: "handle_command d c r = (out, r', e)"
  shows "abs_steps (abs_reg r) (abs_reg r')"
proof (cases c)
  case (OpenTcpServer p)
  with hc show ?thesis
    by (auto simp: open_tcp_server_def fail_with_def Let_def im_contains_def
        split: if_splits sum.splits intro: start_server_abs [OF wf])
next
  case (OpenIpcServer p)
  with hc show ?thesis
    by (auto simp: open_ipc_server_def fail_with_def Let_def im_contains_def
        split: if_splits sum.splits intro: start_server_abs [OF wf])
next
  case (OpenTcpClient lp host rp)
  with hc show ?thesis
    by (auto simp: open_tcp_client_def fail_with_def Let_def
        split: if_splits sum.splits prod.splits intro: insert_stream_abs)
next
  case (OpenIpcClient p)
  let ?r = "r\<lparr>next_ipc_client_seq := saturating_add (next_ipc_client_seq r) 1\<rparr>"
  have "abs_steps (abs_reg r) (abs_reg r1)"
    if "insert_stream \<lparr>sh_state = new_connected i q, sh_stream = s, sh_read_task = t, sh_parent = None\<rparr> ?r = (r1, e1)"
    for i q s t r1 e1
    using insert_stream_abs [OF that] by simp
  with OpenIpcClient hc show ?thesis
    by (auto simp: open_ipc_client_def alloc_ipc_client_seq_def fail_with_def Let_def
        split: sum.splits prod.splits)
next
  case (Send tok bytes)
  with hc abs_send show ?thesis by fastforce
qed (use wf hc in \<open>auto intro: close_abs label_abs\<close>)

lemma event_abs:
  assumes wf: "wf_reg r" and he: "handle_event ev r = (r', e)"
  shows "abs_steps (abs_reg r) (abs_reg r')"
proof (cases "\<exists>i. ev = EvClosed i \<and> im_contains (streams r) i")
  case True
  then obtain i h where ev: "ev = EvClosed i" "im_contains (streams r) i" and h: "sget r i = Some h"
    by (auto simp: im_contains_def)
  obtain r1 e1 where dr: "drop_stream i r = (r1, e1)" by (cases "drop_stream i r")
  with he ev have "r' = r1" by (auto simp: on_closed_event_def Let_def)
  moreover have "\<not> is_server i"
    using wf_core_stream [of r i h] wf h by (simp add: wf_reg_def stream_entry_ok_def)
  moreover have "abs_reg r i \<noteq> None" using h by (simp add: abs_reg_def)
  ultimately show ?thesis
    using abs_drop_stream [OF wf dr] by (simp add: abs_step.closes abs_steps_one)
next
  case False
  with he show ?thesis by (cases ev) (auto simp: on_closed_event_def split: if_splits)
qed

lemma allocate_abs:
  assumes wf: "wf_reg r" and srv: "vget r par = Some srv" "sv_ipc_path srv = raw_path par"
    and mk: "\<And>d. slot (mk d) = Some (par, b, d)"
    and al: "allocate_id mk b par r = Some (final, ev, r', e)"
  shows "abs_steps (abs_reg r) (abs_reg r')"
proof (cases "sv_base_no_suffix srv b")
  case None
  with al srv show ?thesis by (auto simp: allocate_id_def Let_def split: if_splits)
next
  case (Some old)
  let ?r1 = "r\<lparr>servers := im_update par (set_base b None) (servers r)\<rparr>"
  obtain r2 e2 where ren: "rename_accepted_tcp old (mk (Some 1)) ?r1 = (r2, e2)"
    by (cases "rename_accepted_tcp old (mk (Some 1)) ?r1")
  have r': "abs_reg r' = abs_reg r2"
    using al srv Some ren by (auto simp: allocate_id_def Let_def split: option.splits)
  show ?thesis
  proof (cases "sget r old")
    case None
    with ren have "r2 = ?r1" by (simp add: rename_absent)
    with r' show ?thesis by simp
  next
    case h: (Some h)
    have old: "\<not> is_server old"
      using base_holder(1) [OF wf srv mk Some] slot_is_server by blast
    have "wf_core r" using wf by (simp add: wf_reg_def)
    from wf_not_both [OF this h] have "vget r k = None" if "same_id old k" for k
      using that im_get_same by metis
    then have "abs_reg r2 = abs_rename old (mk (Some 1)) (abs_reg ?r1)"
      using abs_rename_view [OF ren] h by (simp add: im_get_update)
    moreover have "\<not> is_server (mk (Some 1))" using slot_is_server [OF mk] by blast
    ultimately show ?thesis
      using h old by (simp add: r' abs_step.renames abs_steps_one abs_reg_def [of r])
  qed
qed

lemma accepted_abs:
  assumes wf: "wf_reg r" and ok: "well_addressed (d, Accepted par child peer s) r"
    and ha: "handle_accepted d par child peer s r = Some (r', e)"
  shows "abs_steps (abs_reg r) (abs_reg r')"
proof (cases "shapes_match par child")
  case True
  from ha True obtain mk b final ev r1 e1 e2 where mk: "\<And>d. slot (mk d) = Some (par, b, d)"
    and al: "allocate_id mk b par r = Some (final, ev, r1, e1)"
    and ins: "insert_stream \<lparr>sh_state = new_connected final (Some peer), sh_stream = s,
      sh_read_task = dep_task d, sh_parent = Some par\<rparr> r1 = (r', e2)"
    by (rule handle_accepted_match) blast
  from al obtain srv where srv: "vget r par = Some srv"
    by (metis allocate_id_None_iff not_None_eq)
  have path: "sv_ipc_path srv = raw_path par" by (rule addressed_path [OF wf ok True srv])
  obtain d' ev' r0 where "allocate_id mk b par r = Some (mk d', ev', r0, [])" "slot_ok r0 (mk d') (Some par)"
    by (rule allocate_id_wf [OF wf srv path mk]) blast
  with al mk have "im_contains (servers r1) par" "final = mk d'" by (auto simp: slot_ok_def im_contains_def)
  with slot_is_server [OF mk] have "abs_steps (abs_reg r1) (abs_reg r')" by (intro insert_stream_abs [OF ins]) simp_all
  with allocate_abs [OF wf srv path mk al] show ?thesis by (rule rtranclp_trans)
next
  case False
  with ha show ?thesis by (simp add: handle_accepted_mismatch)
qed

lemma input_abs:
  assumes "wf_reg r" and "well_addressed (d, x) r" and "handle_input d x r = Some (r', e, go)"
  shows "abs_steps (abs_reg r) (abs_reg r')"
  using assms
  by (cases x) (auto simp: Let_def split: prod.splits intro: command_abs event_abs accepted_abs)

section \<open>What the abstract machine keeps\<close>

text \<open>
  Equal identifiers have the same entry, a parent is a server that is there, servers have no parent,
  and no label has two carriers.
\<close>

definition abs_inv :: "abs_registry \<Rightarrow> bool" where
  "abs_inv A \<longleftrightarrow>
     (\<forall>i j. same_id i j \<longrightarrow> A i = A j) \<and>
     (\<forall>i e k. A i = Some e \<and> ae_parent e = Some k \<longrightarrow>
        \<not> is_server i \<and> (\<exists>p. k = key p \<and> is_server p \<and> A p \<noteq> None)) \<and>
     (\<forall>i e n. A i = Some e \<and> ae_label e = Some n \<longrightarrow> label_free A i n)"

lemma abs_invD:
  assumes "abs_inv A"
  shows "same_id i j \<Longrightarrow> A i = A j"
    and "A i = Some e \<Longrightarrow> ae_parent e = Some k \<Longrightarrow> \<not> is_server i \<and> (\<exists>p. k = key p \<and> is_server p \<and> A p \<noteq> None)"
    and "A i = Some e \<Longrightarrow> ae_label e = Some n \<Longrightarrow> A j = Some e' \<Longrightarrow> ae_label e' = Some n \<Longrightarrow> same_id i j"
  using assms unfolding abs_inv_def label_free_def by blast+

lemma abs_invI:
  assumes "\<And>i j. same_id i j \<Longrightarrow> A i = A j"
    and "\<And>i e k. A i = Some e \<Longrightarrow> ae_parent e = Some k \<Longrightarrow>
       \<not> is_server i \<and> (\<exists>p. k = key p \<and> is_server p \<and> A p \<noteq> None)"
    and "\<And>i j e e' n. A i = Some e \<Longrightarrow> ae_label e = Some n \<Longrightarrow> A j = Some e' \<Longrightarrow> ae_label e' = Some n \<Longrightarrow>
       same_id i j"
  shows "abs_inv A"
  unfolding abs_inv_def label_free_def using assms by blast

lemma abs_inv_add:
  assumes inv: "abs_inv A" and e: "ae_label e = None"
    and par: "ae_parent e = None \<or>
       \<not> is_server i \<and> (\<exists>p. ae_parent e = Some (key p) \<and> is_server p \<and> A p \<noteq> None)"
  shows "abs_inv (abs_add i e A)"
proof (rule abs_invI)
  show "abs_add i e A j = abs_add i e A k" if "same_id j k" for j k
    using abs_invD(1) [OF inv that] that by (auto simp: abs_add_def same_id_def)
next
  fix j e' k
  assume j: "abs_add i e A j = Some e'" "ae_parent e' = Some k"
  have kept: "A p \<noteq> None \<Longrightarrow> abs_add i e A p \<noteq> None" for p by (simp add: abs_add_def)
  have "\<not> is_server j \<and> (\<exists>p. k = key p \<and> is_server p \<and> A p \<noteq> None)"
    using j par abs_invD(2) [OF inv] same_id_is_server [of i j]
    by (cases "same_id i j") (auto simp: abs_add_def)
  with kept show "\<not> is_server j \<and> (\<exists>p. k = key p \<and> is_server p \<and> abs_add i e A p \<noteq> None)" by blast
next
  show "same_id j k" if "abs_add i e A j = Some e1" "ae_label e1 = Some n" "abs_add i e A k = Some e2"
    "ae_label e2 = Some n" for j k e1 e2 n
    using that e abs_invD(3) [OF inv] by (auto simp: abs_add_def split: if_splits)
qed

lemma abs_inv_close:
  assumes inv: "abs_inv A"
  shows "abs_inv (abs_close q A)"
proof (rule abs_invI)
  show "abs_close q A j = abs_close q A k" if "same_id j k" for j k
    using abs_invD(1) [OF inv that] that by (auto simp: abs_close_def same_id_def split: option.splits)
next
  fix j e k
  assume "abs_close q A j = Some e" and k: "ae_parent e = Some k"
  then have j: "A j = Some e" "ae_parent e \<noteq> Some (key q)" by (auto simp: abs_close_def split: option.splits if_splits)
  from abs_invD(2) [OF inv j(1) k] obtain p e' where p: "\<not> is_server j" "k = key p" "is_server p" "A p = Some e'"
    by blast
  have "ae_parent e' = None" using abs_invD(2) [OF inv p(4)] p(3) by (cases "ae_parent e'") auto
  with p k j(2) have "abs_close q A p \<noteq> None" by (auto simp: abs_close_def same_id_def)
  with p show "\<not> is_server j \<and> (\<exists>p. k = key p \<and> is_server p \<and> abs_close q A p \<noteq> None)" by blast
next
  show "same_id j k" if "abs_close q A j = Some e1" "ae_label e1 = Some n" "abs_close q A k = Some e2"
    "ae_label e2 = Some n" for j k e1 e2 n
    using that abs_invD(3) [OF inv] by (auto simp: abs_close_def split: option.splits if_splits)
qed

lemma abs_inv_label:
  assumes inv: "abs_inv A" and free: "label_free A i l"
  shows "abs_inv (abs_label i l A)"
proof (rule abs_invI)
  show "abs_label i l A j = abs_label i l A k" if "same_id j k" for j k
    using abs_invD(1) [OF inv that] that by (auto simp: abs_label_def same_id_def)
next
  fix j e k
  assume "abs_label i l A j = Some e" "ae_parent e = Some k"
  then obtain e0 where "A j = Some e0" "ae_parent e0 = Some k" by (auto simp: abs_label_def split: if_splits)
  moreover have "abs_label i l A p \<noteq> None \<longleftrightarrow> A p \<noteq> None" for p by (simp add: abs_label_def)
  ultimately show "\<not> is_server j \<and> (\<exists>p. k = key p \<and> is_server p \<and> abs_label i l A p \<noteq> None)"
    using abs_invD(2) [OF inv] by blast
next
  have carrier: "n = l \<and> same_id i j \<or> \<not> same_id i j \<and> (\<exists>e. A j = Some e \<and> ae_label e = Some n)"
    if "abs_label i l A j = Some e" "ae_label e = Some n" for j e n
    using that by (auto simp: abs_label_def split: if_splits)
  fix j k e1 e2 n
  assume "abs_label i l A j = Some e1" "ae_label e1 = Some n" "abs_label i l A k = Some e2"
    "ae_label e2 = Some n"
  note c = carrier [OF this(1,2)] carrier [OF this(3,4)]
  show "same_id j k"
  proof (cases "same_id i j")
    case True
    with c free have "same_id i k" unfolding label_free_def by blast
    with True show ?thesis by (auto simp: same_id_def)
  next
    case False
    with c free have "\<not> same_id i k" unfolding label_free_def by blast
    with False c abs_invD(3) [OF inv] show ?thesis by blast
  qed
qed

lemma abs_inv_rename:
  assumes inv: "abs_inv A" and old: "\<not> is_server old" and new: "\<not> is_server new"
  shows "abs_inv (abs_rename old new A)"
proof (rule abs_invI)
  show "abs_rename old new A j = abs_rename old new A k" if "same_id j k" for j k
    using abs_invD(1) [OF inv that] that by (auto simp: abs_rename_def same_id_def)
next
  fix j e k
  assume j: "abs_rename old new A j = Some e" "ae_parent e = Some k"
  have kept: "abs_rename old new A p = A p" if "is_server p" for p
    using that old new same_id_is_server [of old p] same_id_is_server [of new p]
    by (auto simp: abs_rename_def)
  from j obtain j' where "A j' = Some e" "is_server j' = is_server j"
    using old new same_id_is_server [of new j] by (auto simp: abs_rename_def split: if_splits)
  with abs_invD(2) [OF inv _ j(2)] kept
  show "\<not> is_server j \<and> (\<exists>p. k = key p \<and> is_server p \<and> abs_rename old new A p \<noteq> None)" by metis
next
  have carrier: "same_id new j \<and> A old = Some e \<or> \<not> same_id new j \<and> \<not> same_id old j \<and> A j = Some e"
    if "abs_rename old new A j = Some e" for j e
    using that by (auto simp: abs_rename_def split: if_splits)
  fix j k e1 e2 n
  assume "abs_rename old new A j = Some e1" "ae_label e1 = Some n" "abs_rename old new A k = Some e2"
    "ae_label e2 = Some n"
  note c = carrier [OF this(1)] carrier [OF this(3)] and l = this(2,4)
  show "same_id j k"
  proof (cases "same_id new j")
    case True
    then have "A old = Some e1" using c(1) by blast
    with abs_invD(3) [OF inv this l(1) _ l(2), of k] c(2) have "same_id new k" by blast
    with True show ?thesis by (simp add: same_id_def)
  next
    case False
    then have j: "\<not> same_id old j" "A j = Some e1" using c(1) by blast+
    with abs_invD(3) [OF inv _ l(2) j(2) l(1), of old] c(2) have "A k = Some e2" by blast
    from abs_invD(3) [OF inv j(2) l(1) this l(2)] show ?thesis .
  qed
qed

lemma abs_inv_step: "abs_step A B \<Longrightarrow> abs_inv A \<Longrightarrow> abs_inv B"
  by (induction rule: abs_step.induct)
     (auto intro: abs_inv_add abs_inv_close abs_inv_label abs_inv_rename)

section \<open>The registry task follows the abstract machine\<close>

interpretation sim: simulation registry_step well_addressed wf_reg abs_reg abs_step
proof
  fix r r' :: "'a registry" and x
  assume wf: "wf_reg r" and ok: "well_addressed x r" and st: "registry_step x r = Some r'"
  obtain d i where x: "x = (d, i)" by (cases x)
  from st x obtain e go where "handle_input d i r = Some (r', e, go)" by (auto simp: registry_step_def)
  with wf ok x show "abs_steps (abs_reg r) (abs_reg r')" by (auto intro: input_abs)
qed

lemma abs_new [simp]: "abs_reg new_registry = (\<lambda>_. None)"
  by (simp add: abs_reg_def new_registry_def fun_eq_iff)

text \<open>C4: Every run of the registry task is one of the abstract machine, which registers identifiers
  under parents that are there, closes an identifier with everything that belongs to it, gives labels
  that are free, and renames. So in every registry that is reached, a parent is a registered server, servers
  have no parent, and no label has two carriers.\<close>

theorem registry_simulated:
  assumes "good_run registry_step well_addressed xs new_registry"
    and "run_steps registry_step xs new_registry = Some r"
  shows "rtranclp abs_step (\<lambda>_. None) (abs_reg r) \<and> abs_inv (abs_reg r)"
proof -
  have "abs_inv (abs_reg (new_registry :: 'a registry))" by (simp add: abs_inv_def)
  from sim.run_keeps [where P = abs_inv, OF abs_inv_step this wf_reg_new assms]
    sim.run_simulated [OF wf_reg_new assms]
  show ?thesis by simp
qed

theorem registry_simulated_witness:
  "rtranclp abs_step (\<lambda>_. None) (abs_reg sample) \<and> abs_inv (abs_reg sample)"
  by (rule registry_simulated [OF sample_good sample_run])

end
