(* ===== verification/Status_Properties.thy ===== *)
theory Status_Properties
  imports Samples "HOL-Library.Multiset"
begin

text \<open>
  Properties of the status text. The maps of the code are iterated in an arbitrary order, the model's
  in the order of their entries; the text does not depend on it.
\<close>

section \<open>Reordering the maps\<close>

text \<open>Two registries that differ only in the order of their maps and child sets.\<close>

definition reordered :: "'s registry \<Rightarrow> 's registry \<Rightarrow> bool" where
  "reordered r r' \<longleftrightarrow>
     im_distinct (streams r) \<and> mset (streams r') = mset (streams r) \<and>
     mset (im_keys (servers r')) = mset (im_keys (servers r)) \<and>
     (\<forall>p. rel_option (\<lambda>s s'. mset (sv_children s) = mset (sv_children s'))
        (im_get (servers r) p) (im_get (servers r') p))"

text \<open>No two identifiers that are listed side by side have the same text.\<close>

definition texts_differ :: "'s registry \<Rightarrow> bool" where
  "texts_differ r \<longleftrightarrow>
     inj_on show_id (set (im_keys (streams r))) \<and> inj_on show_id (set (im_keys (servers r))) \<and>
     (\<forall>s \<in> snd ` set (servers r). inj_on show_id (set (sv_children s)))"

lemma sort_by_text:
  assumes "mset xs = mset ys" and "inj_on show_id (set xs)"
  shows "sort_key show_id xs = sort_key show_id ys"
  using assms by (intro sort_key_inj_key_eq) simp_all

lemma im_distinct_mset:
  assumes "mset m = mset n" shows "im_distinct m = im_distinct n"
proof -
  have "mset (map (\<lambda>e. key (fst e)) m) = mset (map (\<lambda>e. key (fst e)) n)"
    by (simp only: mset_map assms)
  from mset_eq_imp_distinct_iff [OF this] show ?thesis by (simp add: im_distinct_def comp_def)
qed

lemma im_get_mset:
  assumes d: "im_distinct m" and m: "mset m = mset n"
  shows "im_get m i = im_get n i"
proof (cases "im_get m i")
  case None
  then have "im_get n i = None" using mset_eq_setD [OF m] by (simp add: im_get_None_iff im_dom_def)
  with None show ?thesis by simp
next
  case (Some v)
  from im_get_SomeD [OF Some] obtain k where k: "(k, v) \<in> set m" "same_id k i" by blast
  have "im_distinct n" using d im_distinct_mset [OF m] by simp
  moreover have "(k, v) \<in> set n" using k(1) mset_eq_setD [OF m] by simp
  ultimately have "im_get n k = Some v" by (rule im_get_entry)
  with Some im_get_same [OF k(2), of n] show ?thesis by simp
qed

section \<open>The status text\<close>

text \<open>C35: The text of the status command does not depend on the order in which the maps and the sets
  of children are iterated, when no two identifiers it lists side by side have the same text.\<close>

theorem status_order_irrelevant:
  assumes "reordered r r'" and "texts_differ r"
  shows "render_status r' = render_status r"
proof -
  have st: "im_get (streams r') i = im_get (streams r) i" for i
    using assms(1) im_get_mset [of "streams r" "streams r'" i] by (simp add: reordered_def)
  have "mset (map fst (filter (\<lambda>e. sh_parent (snd e) = None) (streams r))) =
      mset (map fst (filter (\<lambda>e. sh_parent (snd e) = None) (streams r')))"
    using assms(1) by (simp add: reordered_def)
  then have clients: "client_ids r' = client_ids r"
    unfolding client_ids_def
  proof (rule sort_by_text [symmetric])
    have "set (map fst (filter (\<lambda>e. sh_parent (snd e) = None) (streams r))) \<subseteq> set (im_keys (streams r))"
      by auto
    with assms(2) show "inj_on show_id (set (map fst (filter (\<lambda>e. sh_parent (snd e) = None) (streams r))))"
      unfolding texts_differ_def by (meson inj_on_subset)
  qed
  have servers: "server_ids r' = server_ids r"
    unfolding server_ids_def using assms
    by (intro sort_by_text [symmetric]) (simp_all add: reordered_def texts_differ_def)
  have "server_block r' p = server_block r p" for p
  proof -
    from assms(1) have "rel_option (\<lambda>s s'. mset (sv_children s) = mset (sv_children s'))
        (im_get (servers r) p) (im_get (servers r') p)" by (simp add: reordered_def)
    then show ?thesis
    proof (cases rule: option.rel_cases)
      case (Some s s')
      from im_get_SomeD [OF Some(1)] have "s \<in> snd ` set (servers r)" by force
      then have "sort_key show_id (sv_children s) = sort_key show_id (sv_children s')"
        using assms(2) Some(3) by (intro sort_by_text) (auto simp: texts_differ_def)
      moreover have "child_line r' = child_line r" by (simp add: child_line_def st fun_eq_iff)
      ultimately show ?thesis using Some by (simp add: server_block_def)
    qed (simp add: server_block_def)
  qed
  moreover have "client_line r' = client_line r" by (simp add: client_line_def st fun_eq_iff)
  ultimately show ?thesis
    by (simp add: render_status_def clients servers cong: map_cong)
qed

theorem status_order_irrelevant_witness:
  "render_status (sample\<lparr>streams := rev (streams sample)\<rparr>) = render_status sample"
proof -
  have "im_distinct (streams sample)" using wf_sample by (simp add: wf_reg_def wf_core_def)
  moreover have "rel_option R x x" if "\<And>s. R s s" for R and x :: "server_handle option"
    using that by (cases x) simp_all
  ultimately have "reordered sample (sample\<lparr>streams := rev (streams sample)\<rparr>)"
    by (simp add: reordered_def)
  moreover have "texts_differ sample"
  proof -
    have "distinct (map show_id (im_keys (streams sample))) \<and> distinct (map show_id (im_keys (servers sample))) \<and>
        list_all (\<lambda>e. distinct (map show_id (sv_children (snd e)))) (servers sample)"
      by code_simp
    then show ?thesis
      unfolding texts_differ_def list_all_iff distinct_map by (simp only: Ball_image_comp comp_def simp_thms) blast
  qed
  ultimately show ?thesis by (rule status_order_irrelevant)
qed

section \<open>Two lines of the readme's session\<close>

text \<open>A server without connections has no line below its own; the readme shows \<open>(none)\<close> there.\<close>

lemma childless_server_block:
  "im_get (servers r) p = Some srv \<Longrightarrow> sv_children srv = [] \<Longrightarrow>
     server_block r p = ''  '' @ show_id p @ ''\<newline>''"
  by (simp add: server_block_def)

text \<open>
  The line that a close command displays has the identifier, also for a connection with a label;
  the readme shows the label, as the line of a close event does.
\<close>

lemma close_shows_id:
  assumes "resolve_id r tok default_token_parser = Ok i" and "registered r i"
    and "close_connection tok r = (out, r', e)"
  shows "last e = Display (''['' @ show_id i @ ''] CLOSED'')"
  using assms by (auto simp: close_connection_def Let_def split: if_splits prod.splits)

lemma close_event_shows_name:
  assumes "im_contains (streams r) i" and "handle_event (EvClosed i) r = (r', e)"
  shows "last e = Display (''['' @ display_name r i @ ''] CLOSED'')"
  using assms by (auto simp: on_closed_event_def Let_def split: prod.splits)

end
