(* ===== verification/Accept_Tasks.thy ===== *)
theory Accept_Tasks
  imports Tame
begin

text \<open>
  The accept tasks that the registry owns, and what the operations do to them: an operation that
  loses one has aborted it, and none but the opening of a server spawns one.
\<close>

definition accept_tasks :: "'s registry \<Rightarrow> task set" where
  "accept_tasks r = (\<lambda>e. sv_accept_task (snd e)) ` set (servers r)"

fun spawns_accept :: "'s effect \<Rightarrow> bool" where
  "spawns_accept (SpawnAccept _ _ _) = True"
| "spawns_accept _ = False"

definition aborted_by :: "'s effects \<Rightarrow> task set" where
  "aborted_by e = {t. AbortTask t \<in> set e}"

text \<open>No accept task is spawned, and none that the registry gives up is left running.\<close>

definition guarded :: "'s registry \<Rightarrow> 's effects \<Rightarrow> 's registry \<Rightarrow> bool" where
  "guarded r e r' \<longleftrightarrow>
     (\<forall>x\<in>set e. \<not> spawns_accept x) \<and> accept_tasks r \<subseteq> accept_tasks r' \<union> aborted_by e"

named_theorems guarded_intros \<open>operations that are guarded\<close>

lemma aborted_by_simps [simp]:
  "aborted_by [] = {}" "aborted_by (e1 @ e2) = aborted_by e1 \<union> aborted_by e2"
  "aborted_by (AbortTask t # e) = insert t (aborted_by e)"
  "\<not> (\<exists>t. x = AbortTask t) \<Longrightarrow> aborted_by (x # e) = aborted_by e"
  by (auto simp: aborted_by_def)

lemma guarded_same:
  "accept_tasks r' = accept_tasks r \<Longrightarrow> (\<And>x. x \<in> set e \<Longrightarrow> \<not> spawns_accept x) \<Longrightarrow> guarded r e r'"
  by (auto simp: guarded_def)

lemma guarded_refl [guarded_intros]: "(\<And>x. x \<in> set e \<Longrightarrow> \<not> spawns_accept x) \<Longrightarrow> guarded r e r"
  by (rule guarded_same) simp_all

lemma guarded_append: "guarded r e1 r1 \<Longrightarrow> guarded r1 e2 r2 \<Longrightarrow> guarded r (e1 @ e2) r2"
  by (auto simp: guarded_def)

lemma guarded_more:
  "guarded r e r' \<Longrightarrow> set e \<subseteq> set e' \<Longrightarrow> (\<And>x. x \<in> set e' \<Longrightarrow> x \<in> set e \<or> \<not> spawns_accept x) \<Longrightarrow> guarded r e' r'"
  by (auto simp: guarded_def aborted_by_def)

section \<open>Changes of one map\<close>

lemma accept_tasks_simps [simp]:
  "accept_tasks (r\<lparr>streams := x\<rparr>) = accept_tasks r" "accept_tasks (r\<lparr>labels := y\<rparr>) = accept_tasks r"
  "accept_tasks (r\<lparr>next_ipc_client_seq := n\<rparr>) = accept_tasks r"
  by (simp_all add: accept_tasks_def)

lemma accept_tasks_update:
  assumes "\<And>s. sv_accept_task (f s) = sv_accept_task s"
  shows "accept_tasks (q\<lparr>servers := im_update i f (servers r)\<rparr>) = accept_tasks r"
proof -
  have "map (\<lambda>e. sv_accept_task (snd e)) (im_update i f m) = map (\<lambda>e. sv_accept_task (snd e)) m" for m
    by (induction m) (auto simp: assms)
  then have "(\<lambda>e. sv_accept_task (snd e)) ` set (im_update i f m) = (\<lambda>e. sv_accept_task (snd e)) ` set m" for m
    by (metis set_map)
  then show ?thesis by (simp add: accept_tasks_def)
qed

lemma accept_tasks_update_children [simp]: "accept_tasks (update_children f p r) = accept_tasks r"
  by (cases p) (simp_all add: update_children_def accept_tasks_update)

lemma accept_tasks_forget [simp]: "accept_tasks (forget_label l r) = accept_tasks r"
  by (cases l) (simp_all add: forget_label_def)

lemma accept_tasks_tables [simp]:
  "accept_tasks (q\<lparr>servers := im_update p (set_base b x) (servers r)\<rparr>) = accept_tasks r"
  "accept_tasks (q\<lparr>servers := im_update p (set_next b n) (servers r)\<rparr>) = accept_tasks r"
  "accept_tasks (q\<lparr>servers := im_update p (label_server l) (servers r)\<rparr>) = accept_tasks r"
  by (simp_all add: accept_tasks_update set_base_def set_next_def label_server_def)

section \<open>The operations\<close>

lemma displaced_quiet [simp]: "x \<in> set (displaced o_h) \<Longrightarrow> \<not> spawns_accept x"
  by (cases o_h) (auto simp: displaced_def)

lemma guarded_insert_stream [guarded_intros]: "insert_stream h r = (r', e) \<Longrightarrow> guarded r e r'"
  by (rule guarded_same) (auto simp: insert_stream_def Let_def)

lemma guarded_drop_stream [guarded_intros]: "drop_stream i r = (r', e) \<Longrightarrow> guarded r e r'"
  by (rule guarded_same) (auto simp: drop_stream_def Let_def split: option.splits)

lemma guarded_drop_streams [guarded_intros]: "drop_streams cs r = (r', e) \<Longrightarrow> guarded r e r'"
proof (induction cs arbitrary: r e)
  case (Cons c cs)
  obtain r1 e1 where 1: "drop_stream c r = (r1, e1)" by (cases "drop_stream c r")
  obtain r2 e2 where 2: "drop_streams cs r1 = (r2, e2)" by (cases "drop_streams cs r1")
  from guarded_append [OF guarded_drop_stream [OF 1] Cons.IH [of r1 e2]] Cons.prems 1 2 show ?case by simp
qed (auto intro: guarded_refl)

lemma guarded_drop_server [guarded_intros]:
  assumes "im_distinct (servers r)" and dr: "drop_server i r = (r', e)"
  shows "guarded r e r'"
proof (cases "vget r i")
  case (Some srv)
  let ?r1 = "r\<lparr>servers := im_remove i (servers r)\<rparr>"
  obtain r2 e2 where 2: "drop_streams (sv_children srv) ?r1 = (r2, e2)"
    by (cases "drop_streams (sv_children srv) ?r1")
  have r': "r' = forget_label (cs_label (sv_state srv)) r2"
    and e: "e = [AbortTask (sv_accept_task srv)] @ e2 @
       (case sv_ipc_path srv of Some p \<Rightarrow> [RemoveFile p] | None \<Rightarrow> [])"
    using dr Some 2 by (simp_all add: drop_server_def Let_def)
  have "accept_tasks r \<subseteq> insert (sv_accept_task srv) (accept_tasks ?r1)"
  proof
    fix t
    assume "t \<in> accept_tasks r"
    then obtain k s where ks: "(k, s) \<in> set (servers r)" "t = sv_accept_task s"
      by (auto simp: accept_tasks_def)
    show "t \<in> insert (sv_accept_task srv) (accept_tasks ?r1)"
    proof (cases "same_id k i")
      case True
      with im_get_entry [OF assms(1) ks(1)] Some im_get_same [OF True, of "servers r"] ks(2)
      show ?thesis by simp
    next
      case False
      with ks show ?thesis by (force simp: accept_tasks_def im_remove_filter)
    qed
  qed
  moreover have "guarded ?r1 e2 r2" by (rule guarded_drop_streams [OF 2])
  ultimately show ?thesis unfolding r' e guarded_def by (auto split: option.splits)
qed (use dr in \<open>auto simp: drop_server_absent intro: guarded_refl\<close>)

lemma guarded_apply_label [guarded_intros]: "apply_label i name r = (res, r') \<Longrightarrow> guarded r [] r'"
  by (rule guarded_same) (auto simp: apply_label_def Let_def split: if_splits option.splits)

lemma accept_tasks_write: "write_to_stream io i bytes r = (res, r') \<Longrightarrow> accept_tasks r' = accept_tasks r"
  by (erule write_to_stream_shape) simp_all

lemma guarded_write: "write_to_stream io i bytes r = (res, r') \<Longrightarrow> guarded r [] r'"
  by (rule guarded_same) (auto dest: accept_tasks_write)

lemma guarded_broadcast: "broadcast io cs bytes r = (r', e) \<Longrightarrow> guarded r e r'"
proof (induction cs arbitrary: r e)
  case (Cons c cs)
  obtain res r1 where 1: "write_to_stream io c bytes r = (res, r1)" by (cases "write_to_stream io c bytes r")
  obtain r2 e2 where 2: "broadcast io cs bytes r1 = (r2, e2)" by (cases "broadcast io cs bytes r1")
  have "guarded r1 e2 r'" using Cons 1 2 by (auto simp: Let_def)
  then show ?case
    using Cons.prems 1 2 accept_tasks_write [OF 1] by (auto simp: Let_def guarded_def split: sum.splits)
qed (auto intro: guarded_refl)

lemma guarded_send_bytes [guarded_intros]: "send_bytes io i bytes r = (res, r', e) \<Longrightarrow> guarded r e r'"
  by (auto simp: send_bytes_def Let_def split: if_splits option.splits prod.splits
      intro: guarded_broadcast guarded_refl guarded_write)

lemma guarded_rename: "rename_accepted_tcp old new r = (r', e) \<Longrightarrow> guarded r e r'"
  by (rule guarded_same) (auto simp: rename_accepted_tcp_def Let_def split: option.splits)

lemma guarded_allocate: "allocate_id mk b par r = Some (final, ev, r', e) \<Longrightarrow> guarded r e r'"
  by (auto simp: allocate_id_def Let_def guarded_def split: option.splits if_splits prod.splits
      dest!: guarded_rename)

lemma guarded_handle_accepted:
  assumes ha: "handle_accepted d par child peer s r = Some (r', e)"
  shows "guarded r e r'"
proof (cases "shapes_match par child")
  case True
  from ha True obtain mk b final ev r1 e1 e2 where
    al: "allocate_id mk b par r = Some (final, ev, r1, e1)"
    and ins: "insert_stream \<lparr>sh_state = new_connected final (Some peer), sh_stream = s,
      sh_read_task = dep_task d, sh_parent = Some par\<rparr> r1 = (r', e2)"
    and e: "e = e1 @ rename_line ev @ [SpawnRead (dep_task d) final] @ e2 @
      [Display (''['' @ show_id final @ ''] ACCEPT peer='' @ render_peer peer)]"
    by (rule handle_accepted_match)
  have "guarded r (e1 @ e2) r'"
    by (rule guarded_append [OF guarded_allocate [OF al] guarded_insert_stream [OF ins]])
  then show ?thesis
    by (rule guarded_more) (auto simp: e rename_line_def split: option.splits net_event.splits)
next
  case False
  with ha show ?thesis by (auto simp: handle_accepted_mismatch intro!: guarded_refl)
qed

section \<open>The handlers\<close>

lemma guarded_fail_with [guarded_intros]: "fail_with err r = (out, r', e) \<Longrightarrow> guarded r e r'"
  by (auto simp: fail_with_def intro: guarded_refl)

lemma guarded_open_client:
  assumes "insert_stream h r = (r', e2)"
  shows "guarded r (SpawnRead t i # e2 @ [Display x]) r'"
  by (rule guarded_more [OF guarded_insert_stream [OF assms]]) auto

lemma guarded_open_tcp_client [guarded_intros]:
  "open_tcp_client d lp host rp r = (out, r', e) \<Longrightarrow> guarded r e r'"
  by (auto simp: open_tcp_client_def Let_def fail_with_def
      split: if_splits sum.splits prod.splits intro: guarded_open_client guarded_refl)

lemma guarded_seq:
  "guarded (r\<lparr>next_ipc_client_seq := n\<rparr>) e r' \<Longrightarrow> guarded r e r'"
  by (simp add: guarded_def)

lemma guarded_open_ipc_client [guarded_intros]:
  "open_ipc_client d p r = (out, r', e) \<Longrightarrow> guarded r e r'"
  by (auto simp: open_ipc_client_def alloc_ipc_client_seq_def Let_def fail_with_def
      split: sum.splits prod.splits intro: guarded_same guarded_seq [OF guarded_open_client])

lemma guarded_close [guarded_intros]:
  assumes "im_distinct (servers r)" and "close_connection tok r = (out, r', e)"
  shows "guarded r e r'"
proof -
  have more: "guarded r (e1 @ [Display x]) r1" if "guarded r e1 r1" for e1 r1 x
    by (rule guarded_more [OF that]) auto
  show ?thesis
    using assms(2) guarded_drop_server [OF assms(1)]
    by (auto simp: close_connection_def Let_def split: sum.splits if_splits prod.splits
        intro!: more intro: guarded_intros)
qed

lemma guarded_send_command [guarded_intros]: "send_command d tok bytes r = (out, r', e) \<Longrightarrow> guarded r e r'"
  by (auto simp: send_command_def split: sum.splits prod.splits intro: guarded_intros)

lemma guarded_label_command [guarded_intros]: "label_command tok name r = (out, r', e) \<Longrightarrow> guarded r e r'"
  by (auto simp: label_command_def cmd_label_def split: sum.splits prod.splits intro: guarded_intros)

lemma guarded_handle_event: "handle_event ev r = (r', e) \<Longrightarrow> guarded r e r'"
proof -
  have more: "guarded r (e1 @ [Display x]) r1" if "drop_stream i r = (r1, e1)" for i e1 r1 x
    by (rule guarded_more [OF guarded_drop_stream [OF that]]) auto
  show "handle_event ev r = (r', e) \<Longrightarrow> guarded r e r'"
    by (cases ev) (auto simp: on_received_def on_error_event_def on_closed_event_def Let_def
        split: if_splits prod.splits intro!: more intro: guarded_refl)
qed

text \<open>What a command does: it opens a server and spawns its accept task, or it is guarded.\<close>

definition server_opened :: "command \<Rightarrow> connection_id \<Rightarrow> bool" where
  "server_opened c i \<longleftrightarrow>
     (\<exists>p. c = OpenTcpServer p \<and> i = TcpServer p) \<or> (\<exists>p. c = OpenIpcServer p \<and> i = IpcServer p)"

definition opened_step :: "'s deps \<Rightarrow> connection_id \<Rightarrow> 's registry \<Rightarrow> 's effects \<Rightarrow> 's registry \<Rightarrow> bool" where
  "opened_step d i r e r' \<longleftrightarrow>
     (\<exists>files al x. e = map RemoveFile files @ [SpawnAccept (dep_task d) i al, Display x]) \<and>
     accept_tasks r' = insert (dep_task d) (accept_tasks r)"

lemma opened_start_server:
  assumes "start_server i (dep_task d) p al r = (out, r', e)" and "vget r i = None"
  shows "opened_step d i r (map RemoveFile files @ e) r'"
proof -
  have "r' = r\<lparr>servers := servers r @ [(i, new_server i (dep_task d) p)]\<rparr>"
    and "\<exists>x. e = [SpawnAccept (dep_task d) i al, Display x]"
    using assms by (auto simp: start_server_def im_insert_absent)
  then show ?thesis by (auto simp: opened_step_def accept_tasks_def new_server_def)
qed

lemma guarded_removing: "guarded r e r' \<Longrightarrow> guarded r (map RemoveFile files @ e) r'"
  by (erule guarded_more) auto

lemma command_accept_tasks:
  assumes dist: "im_distinct (servers r)" and hc: "handle_command d c r = (out, r', e)"
  shows "guarded r e r' \<or> (\<exists>i. server_opened c i \<and> opened_step d i r e r')"
proof (cases c)
  case (OpenTcpServer p)
  with hc show ?thesis
    by (auto simp: open_tcp_server_def Let_def im_contains_def server_opened_def
        split: if_splits sum.splits intro: guarded_fail_with guarded_removing dest: opened_start_server)
next
  case (OpenIpcServer p)
  with hc show ?thesis
    by (auto simp: open_ipc_server_def Let_def im_contains_def server_opened_def
        split: if_splits sum.splits intro: guarded_fail_with guarded_removing dest: opened_start_server)
next
  case (Close tok)
  with hc guarded_close [OF dist] show ?thesis by auto
qed (use hc in \<open>auto intro: guarded_intros\<close>)

text \<open>What one input does.\<close>

lemma input_accept_tasks:
  assumes dist: "im_distinct (servers r)" and hi: "handle_input d x r = Some (r', e, go)"
  shows "guarded r e r' \<or>
     (\<exists>c b i e1 a. x = Command c b \<and> server_opened c i \<and> opened_step d i r e1 r' \<and> e = e1 @ [a] \<and>
        \<not> spawns_accept a \<and> aborted_by [a] = {})"
proof (cases x)
  case (Command c b)
  obtain out r1 e1 where hc: "handle_command d c r = (out, r1, e1)" by (cases "handle_command d c r")
  let ?a = "if b then Reply out else LogWarn ''command reply channel closed before response''"
  from hi Command hc have r: "r1 = r'" "e = e1 @ [?a]" by auto
  have "guarded r e r'" if "guarded r e1 r'"
    by (rule guarded_more [OF that]) (auto simp: r(2) split: if_splits)
  with command_accept_tasks [OF dist hc] r Command show ?thesis by auto
next
  case (Event ev)
  with hi show ?thesis by (auto split: prod.splits intro: guarded_handle_event)
next
  case (Accepted par child peer s)
  with hi show ?thesis by (auto intro: guarded_handle_accepted)
next
  case Shutdown
  with hi show ?thesis by (auto intro!: guarded_refl)
qed

end
