(* ===== verification/System.thy ===== *)
theory System
  imports Accept_Tasks Samples
begin

text \<open>
  The tasks of a running wiredock together (\<open>main.rs\<close>, \<open>repl/runtime.rs\<close>): the registry task, the
  read and accept tasks it spawns, the input loop and Ctrl+C, which all send to the one channel that
  the registry task receives from. A step is one turn of one task, in any order.

  The channel is unbounded here: a full channel only makes a sender wait, so that every run of the
  program is one of the model. Aborting a task marks it, and it goes away at a later step of its own:
  until then it may still have turns, as a task that runs on another thread does. \<open>tokio::spawn\<close>
  returns a new handle each time.

  A turn of the registry task is one that completes. Its handlers wait for writes, connects and the
  display channel without a time-out; a wait that never ends shows as a run in which the registry task
  has no further turn, and what the stuck turn did before it waited is not shown. No property says
  that the registry task gets its turns.
\<close>

section \<open>State\<close>

datatype phase = Serving | Stopped | Panicked

record 's system =
  sy_reg :: "'s registry"
  sy_queue :: "'s registry_input list"
  sy_readers :: "(task \<times> connection_id) list"
  sy_acceptors :: "(task \<times> connection_id) list"
  sy_aborted :: "task list"
  sy_next_task :: task
  sy_phase :: phase

definition initial_system :: "'s system" where
  "initial_system =
     \<lparr>sy_reg = new_registry, sy_queue = [], sy_readers = [], sy_acceptors = [], sy_aborted = [],
      sy_next_task = 0, sy_phase = Serving\<rparr>"

section \<open>Steps\<close>

text \<open>A send to a channel whose receiver is gone is ignored by every sender.\<close>

definition deliver :: "'s registry_input list \<Rightarrow> 's system \<Rightarrow> 's system" where
  "deliver xs \<sigma> = (if sy_phase \<sigma> = Serving then \<sigma>\<lparr>sy_queue := sy_queue \<sigma> @ xs\<rparr> else \<sigma>)"

fun spawned_reader :: "'s effect \<Rightarrow> (task \<times> connection_id) option" where
  "spawned_reader (SpawnRead t i) = Some (t, i)"
| "spawned_reader _ = None"

fun spawned_acceptor :: "'s effect \<Rightarrow> (task \<times> connection_id) option" where
  "spawned_acceptor (SpawnAccept t i _) = Some (t, i)"
| "spawned_acceptor _ = None"

fun aborted_task :: "'s effect \<Rightarrow> task option" where
  "aborted_task (AbortTask t) = Some t"
| "aborted_task _ = None"

definition after_effects :: "'s effects \<Rightarrow> 's system \<Rightarrow> 's system" where
  "after_effects e \<sigma> = \<sigma>\<lparr>
     sy_readers := sy_readers \<sigma> @ List.map_filter spawned_reader e,
     sy_acceptors := sy_acceptors \<sigma> @ List.map_filter spawned_acceptor e,
     sy_aborted := sy_aborted \<sigma> @ List.map_filter aborted_task e\<rparr>"

text \<open>The end of \<open>run_registry\<close>: the teardown, after which the receiver and what it holds is dropped.\<close>

definition stop_registry :: "'s system \<Rightarrow> 's system" where
  "stop_registry \<sigma> =
     (let (r, e) = shutdown (sy_reg \<sigma>)
      in after_effects e (\<sigma>\<lparr>sy_reg := r, sy_queue := [], sy_phase := Stopped\<rparr>))"

fun serve :: "'s deps \<Rightarrow> 's registry_input \<Rightarrow> 's system \<Rightarrow> 's system" where
  "serve d x \<sigma> =
     (case handle_input (d\<lparr>dep_task := sy_next_task \<sigma>\<rparr>) x (sy_reg \<sigma>) of
        None \<Rightarrow> \<sigma>\<lparr>sy_phase := Panicked\<rparr>
      | Some (r, e, go) \<Rightarrow>
          (let \<sigma>1 = after_effects e (\<sigma>\<lparr>sy_reg := r, sy_next_task := sy_next_task \<sigma> + 1\<rparr>)
           in if go then \<sigma>1 else stop_registry \<sigma>1))"

fun accept_turn :: "connection_id \<Rightarrow> domain_error + 's accepted_stream \<Rightarrow> 's registry_input list" where
  "accept_turn (TcpServer p) res = accept_tcp_turn p (TcpServer p) res"
| "accept_turn (IpcServer p) res = accept_ipc_turn p (IpcServer p) res"
| "accept_turn _ res = []"

datatype 's sys_action =
    Enter command bool
  | AskShutdown
  | ReadTurn nat read_result
  | AcceptTurn nat "domain_error + 's accepted_stream"
  | Reap task
  | Serve "'s deps"

definition drop_nth :: "nat \<Rightarrow> 'x list \<Rightarrow> 'x list" where
  "drop_nth k xs = take k xs @ drop (Suc k) xs"

fun turn :: "'s sys_action \<Rightarrow> 's system \<Rightarrow> 's system option" where
  "turn (Enter c b) \<sigma> = Some (deliver [Command c b] \<sigma>)"
| "turn AskShutdown \<sigma> = Some (deliver [Shutdown] \<sigma>)"
| "turn (ReadTurn k res) \<sigma> =
     (if k < length (sy_readers \<sigma>)
      then (let (out, go) = read_turn (snd (sy_readers \<sigma> ! k)) res
            in Some (deliver out (if go then \<sigma> else \<sigma>\<lparr>sy_readers := drop_nth k (sy_readers \<sigma>)\<rparr>)))
      else None)"
| "turn (AcceptTurn k res) \<sigma> =
     (if k < length (sy_acceptors \<sigma>)
      then Some (deliver (accept_turn (snd (sy_acceptors \<sigma> ! k)) res) \<sigma>)
      else None)"
| "turn (Reap t) \<sigma> =
     (if t \<in> set (sy_aborted \<sigma>)
      then Some (\<sigma>\<lparr>sy_readers := filter (\<lambda>x. fst x \<noteq> t) (sy_readers \<sigma>),
                   sy_acceptors := filter (\<lambda>x. fst x \<noteq> t) (sy_acceptors \<sigma>)\<rparr>)
      else None)"
| "turn (Serve d) \<sigma> =
     (case sy_queue \<sigma> of
        [] \<Rightarrow> None
      | x # xs \<Rightarrow> if sy_phase \<sigma> = Serving then Some (serve d x (\<sigma>\<lparr>sy_queue := xs\<rparr>)) else None)"

text \<open>A panic aborts the process in the release profile: no step follows it.\<close>

definition sys_step :: "'s sys_action \<Rightarrow> 's system \<Rightarrow> 's system option" where
  "sys_step a \<sigma> = (if sy_phase \<sigma> = Panicked then None else turn a \<sigma>)"

text \<open>
  The runs in which the user names the socket files of servers by the paths in \<open>ps\<close> only. With
  \<open>one_spelling ps\<close> no socket file is spelled in two ways.
\<close>

definition one_spelling :: "path set \<Rightarrow> bool" where
  "one_spelling ps \<longleftrightarrow> (\<forall>p\<in>ps. \<forall>q\<in>ps. path_key p = path_key q \<longrightarrow> p = q)"

fun permitted :: "path set \<Rightarrow> 's sys_action \<Rightarrow> bool" where
  "permitted ps (Enter (OpenIpcServer p) _) \<longleftrightarrow> p \<in> ps"
| "permitted ps _ \<longleftrightarrow> True"

inductive reachable :: "path set \<Rightarrow> 's system \<Rightarrow> bool" for ps where
  initially: "reachable ps initial_system"
| later: "reachable ps \<sigma> \<Longrightarrow> permitted ps a \<Longrightarrow> sys_step a \<sigma> = Some \<sigma>' \<Longrightarrow> reachable ps \<sigma>'"

lemma reachable_run:
  "run_steps sys_step as \<sigma> = Some \<sigma>' \<Longrightarrow> reachable ps \<sigma> \<Longrightarrow> list_all (permitted ps) as \<Longrightarrow> reachable ps \<sigma>'"
  by (induction as arbitrary: \<sigma>) (auto simp: bind_eq_Some_conv intro: reachable.later)

section \<open>What the steps change\<close>

lemma deliver_simps [simp]:
  "sy_reg (deliver xs \<sigma>) = sy_reg \<sigma>" "sy_readers (deliver xs \<sigma>) = sy_readers \<sigma>"
  "sy_acceptors (deliver xs \<sigma>) = sy_acceptors \<sigma>" "sy_aborted (deliver xs \<sigma>) = sy_aborted \<sigma>"
  "sy_phase (deliver xs \<sigma>) = sy_phase \<sigma>" "set (sy_queue (deliver xs \<sigma>)) \<subseteq> set (sy_queue \<sigma>) \<union> set xs"
  by (auto simp: deliver_def)

lemma after_effects_simps [simp]:
  "sy_reg (after_effects e \<sigma>) = sy_reg \<sigma>" "sy_queue (after_effects e \<sigma>) = sy_queue \<sigma>"
  "sy_phase (after_effects e \<sigma>) = sy_phase \<sigma>" "sy_next_task (after_effects e \<sigma>) = sy_next_task \<sigma>"
  by (simp_all add: after_effects_def)

lemma spawned_acceptor_iff: "spawned_acceptor x = Some (t, i) \<longleftrightarrow> (\<exists>al. x = SpawnAccept t i al)"
  by (cases x) auto

lemma aborted_task_iff: "aborted_task x = Some t \<longleftrightarrow> x = AbortTask t"
  by (cases x) auto

lemma set_map_filter: "y \<in> set (List.map_filter f xs) \<longleftrightarrow> (\<exists>x\<in>set xs. f x = Some y)"
  by (auto simp: List.map_filter_def image_iff)

lemma after_effects_tasks:
  "(t, i) \<in> set (sy_acceptors (after_effects e \<sigma>)) \<longleftrightarrow>
     (t, i) \<in> set (sy_acceptors \<sigma>) \<or> (\<exists>al. SpawnAccept t i al \<in> set e)"
  "set (sy_aborted (after_effects e \<sigma>)) = set (sy_aborted \<sigma>) \<union> aborted_by e"
  by (auto simp: after_effects_def set_map_filter spawned_acceptor_iff aborted_task_iff aborted_by_def)

lemma set_drop_nth: "set (drop_nth k xs) \<subseteq> set xs"
  by (auto simp: drop_nth_def dest: in_set_takeD in_set_dropD)

section \<open>Invariants\<close>

fun server_in :: "path set \<Rightarrow> connection_id \<Rightarrow> bool" where
  "server_in ps (TcpServer _) \<longleftrightarrow> True"
| "server_in ps (IpcServer p) \<longleftrightarrow> p \<in> ps"
| "server_in ps _ \<longleftrightarrow> False"

fun input_in :: "path set \<Rightarrow> 's registry_input \<Rightarrow> bool" where
  "input_in ps (Command (OpenIpcServer p) _) \<longleftrightarrow> p \<in> ps"
| "input_in ps (Accepted par child _ _) \<longleftrightarrow> shapes_match par child \<and> server_in ps par"
| "input_in ps _ \<longleftrightarrow> True"

definition owned :: "'s system \<Rightarrow> bool" where
  "owned \<sigma> \<longleftrightarrow>
     (\<forall>t i. (t, i) \<in> set (sy_acceptors \<sigma>) \<longrightarrow>
        t \<in> accept_tasks (sy_reg \<sigma>) \<or> t \<in> set (sy_aborted \<sigma>))"

definition sys_inv :: "path set \<Rightarrow> 's system \<Rightarrow> bool" where
  "sys_inv ps \<sigma> \<longleftrightarrow>
     wf_reg (sy_reg \<sigma>) \<and> ipc_paths (sy_reg \<sigma>) \<subseteq> ps \<and>
     (\<forall>t i. (t, i) \<in> set (sy_acceptors \<sigma>) \<longrightarrow> server_in ps i) \<and>
     (\<forall>x\<in>set (sy_queue \<sigma>). input_in ps x) \<and>
     owned \<sigma> \<and> (sy_phase \<sigma> = Stopped \<longrightarrow> streams (sy_reg \<sigma>) = [] \<and> servers (sy_reg \<sigma>) = [])"

lemma accept_turn_in: "server_in ps i \<Longrightarrow> x \<in> set (accept_turn i a) \<Longrightarrow> input_in ps x"
  by (cases i; cases a) (auto split: peer_info.splits option.splits)

lemma read_turn_in: "read_turn i res = (out, go) \<Longrightarrow> x \<in> set out \<Longrightarrow> input_in ps x"
  by (cases "(i, res)" rule: read_turn.cases) auto

text \<open>With one spelling per socket file, a queued connection finds the spelling of its server.\<close>

lemma queued_well_addressed:
  assumes wf: "wf_reg r" and ps: "ipc_paths r \<subseteq> ps" "one_spelling ps" and x: "input_in ps x"
  shows "well_addressed (d, x) r"
proof (cases "\<exists>p p' pd dd peer s. x = Accepted (IpcServer p) (AcceptedIpc p' pd dd) peer s")
  case True
  then obtain p p' pd dd peer s where x': "x = Accepted (IpcServer p) (AcceptedIpc p' pd dd) peer s"
    by blast
  show ?thesis
  proof (cases "vget r (IpcServer p)")
    case (Some srv)
    have "server_entry_ok (IpcServer p) srv"
      using wf Some wf_core_server by (auto simp: wf_reg_def)
    then obtain q where q: "sv_ipc_path srv = Some q" "path_key q = path_key p"
      by (cases "cs_id (sv_state srv)") (auto simp: server_entry_ok_def same_id_def)
    obtain k where "(k, srv) \<in> set (servers r)" using im_get_SomeD [OF Some] by blast
    with q(1) have "q \<in> ipc_paths r" unfolding ipc_paths_def by force
    with ps q(2) x x' have "q = p" by (auto simp: one_spelling_def)
    with Some q(1) x' show ?thesis by simp
  qed (simp add: x')
next
  case False
  then show ?thesis by (cases "((d, x), r)" rule: well_addressed.cases) auto
qed

lemma sys_inv_initial: "sys_inv ps initial_system"
  by (simp add: sys_inv_def initial_system_def wf_reg_new owned_def)
    (simp add: ipc_paths_def new_registry_def)

lemma sys_inv_deliver:
  "sys_inv ps \<sigma> \<Longrightarrow> (\<And>x. x \<in> set xs \<Longrightarrow> input_in ps x) \<Longrightarrow> sys_inv ps (deliver xs \<sigma>)"
  by (auto simp: sys_inv_def deliver_def owned_def)

lemma sys_inv_stop:
  assumes "sys_inv ps \<sigma>"
  shows "sys_inv ps (stop_registry \<sigma>)"
proof -
  obtain r e where sd: "shutdown (sy_reg \<sigma>) = (r, e)" by (cases "shutdown (sy_reg \<sigma>)")
  have wf: "wf_reg (sy_reg \<sigma>)" using assms by (simp add: sys_inv_def)
  note facts = shutdown_facts [OF wf sd]
  have quiet: "SpawnAccept t i al \<notin> set e" for t i al
    using facts(3) by (auto simp: all_effects_def)
  have "accept_tasks (sy_reg \<sigma>) \<subseteq> aborted_by e"
  proof
    fix t
    assume "t \<in> accept_tasks (sy_reg \<sigma>)"
    then obtain k s where ks: "(k, s) \<in> set (servers (sy_reg \<sigma>))" "t = sv_accept_task s"
      by (auto simp: accept_tasks_def)
    have "vget (sy_reg \<sigma>) k = Some s"
      using im_get_entry [OF _ ks(1)] wf by (simp add: wf_reg_def wf_core_def)
    with ks(2) show "t \<in> aborted_by e" unfolding aborted_by_def facts(3) all_effects_def by blast
  qed
  then have "owned (stop_registry \<sigma>)"
    using assms quiet unfolding sys_inv_def owned_def
    by (simp add: stop_registry_def sd after_effects_tasks) blast
  moreover have "ipc_paths r \<subseteq> ps" using facts(2) by (simp add: ipc_paths_def)
  ultimately show ?thesis
    using assms facts quiet
    by (simp add: sys_inv_def stop_registry_def sd after_effects_tasks)
qed

lemma sys_inv_serve:
  assumes inv: "sys_inv ps \<sigma>" and one: "one_spelling ps" and x: "input_in ps x"
    and serving: "sy_phase \<sigma> = Serving"
  shows "sys_inv ps (serve d x \<sigma>)"
proof -
  let ?d = "d\<lparr>dep_task := sy_next_task \<sigma>\<rparr>"
  have wf: "wf_reg (sy_reg \<sigma>)" and ps: "ipc_paths (sy_reg \<sigma>) \<subseteq> ps" and own: "owned \<sigma>"
    using inv by (simp_all add: sys_inv_def)
  show ?thesis
  proof (cases "handle_input ?d x (sy_reg \<sigma>)")
    case None
    with inv show ?thesis by (simp add: sys_inv_def owned_def)
  next
    case (Some t)
    then obtain r e go where hi: "handle_input ?d x (sy_reg \<sigma>) = Some (r, e, go)" by (cases t) auto
    let ?\<sigma> = "after_effects e (\<sigma>\<lparr>sy_reg := r, sy_next_task := sy_next_task \<sigma> + 1\<rparr>)"
    have dist: "im_distinct (servers (sy_reg \<sigma>))" using wf by (simp add: wf_reg_def wf_core_def)
    have "wf_reg r"
      by (rule wf_handle_input [OF wf queued_well_addressed [OF wf ps one x] hi])
    moreover have "ipc_paths r \<subseteq> ps" using handle_input_invs [OF hi] ps x by auto
    moreover from input_accept_tasks [OF dist hi] have "owned ?\<sigma> \<and>
      (\<forall>t i. (t, i) \<in> set (sy_acceptors ?\<sigma>) \<longrightarrow> server_in ps i)"
    proof
      assume g: "guarded (sy_reg \<sigma>) e r"
      then have "SpawnAccept t i al \<notin> set e" for t i al by (auto simp: guarded_def)
      with g own inv show ?thesis
        unfolding sys_inv_def owned_def guarded_def by (simp add: after_effects_tasks) blast
    next
      assume "\<exists>c b i e1 a. x = Command c b \<and> server_opened c i \<and> opened_step ?d i (sy_reg \<sigma>) e1 r \<and>
        e = e1 @ [a] \<and> \<not> spawns_accept a \<and> aborted_by [a] = {}"
      then obtain c b i files al y a where c: "x = Command c b" "server_opened c i"
        and e: "e = (map RemoveFile files @ [SpawnAccept (sy_next_task \<sigma>) i al, Display y]) @ [a]"
          "\<not> spawns_accept a"
        and acc: "accept_tasks r = insert (sy_next_task \<sigma>) (accept_tasks (sy_reg \<sigma>))"
        by (auto simp: opened_step_def)
      have "server_in ps i" using c x by (auto simp: server_opened_def)
      moreover have "SpawnAccept t j al' \<in> set e \<Longrightarrow> t = sy_next_task \<sigma> \<and> j = i" for t j al'
        using e by auto
      ultimately show ?thesis
        using own inv acc unfolding sys_inv_def owned_def by (simp add: after_effects_tasks) blast
    qed
    ultimately have "sys_inv ps ?\<sigma>" using inv serving by (simp add: sys_inv_def)
    then show ?thesis using hi by (simp add: Let_def sys_inv_stop)
  qed
qed

lemma sys_inv_step:
  assumes inv: "sys_inv ps \<sigma>" and one: "one_spelling ps" and a: "permitted ps a"
    and st: "sys_step a \<sigma> = Some \<sigma>'"
  shows "sys_inv ps \<sigma>'"
proof (cases a)
  case (Enter c b)
  moreover have "input_in ps (Command c b)" using a Enter by (cases c) auto
  ultimately show ?thesis using st inv by (auto simp: sys_step_def split: if_splits intro!: sys_inv_deliver)
next
  case AskShutdown
  then show ?thesis using st inv by (auto simp: sys_step_def split: if_splits intro!: sys_inv_deliver)
next
  case (ReadTurn k res)
  obtain out :: "'a registry_input list" and go where rt: "read_turn (snd (sy_readers \<sigma> ! k)) res = (out, go)"
    by fastforce
  have "sys_inv ps (\<sigma>\<lparr>sy_readers := y\<rparr>)" for y using inv by (simp add: sys_inv_def owned_def)
  with ReadTurn rt st inv show ?thesis
    by (auto simp: sys_step_def split: if_splits intro!: sys_inv_deliver dest: read_turn_in)
next
  case (AcceptTurn k res)
  then have k: "k < length (sy_acceptors \<sigma>)" and \<sigma>': "\<sigma>' = deliver (accept_turn (snd (sy_acceptors \<sigma> ! k)) res) \<sigma>"
    using st by (auto simp: sys_step_def split: if_splits)
  have "(fst (sy_acceptors \<sigma> ! k), snd (sy_acceptors \<sigma> ! k)) \<in> set (sy_acceptors \<sigma>)" using k by simp
  then have "server_in ps (snd (sy_acceptors \<sigma> ! k))" using inv unfolding sys_inv_def by blast
  then show ?thesis unfolding \<sigma>' using inv accept_turn_in by (blast intro: sys_inv_deliver)
next
  case (Reap t)
  with st have \<sigma>': "\<sigma>' = \<sigma>\<lparr>sy_readers := filter (\<lambda>x. fst x \<noteq> t) (sy_readers \<sigma>),
      sy_acceptors := filter (\<lambda>x. fst x \<noteq> t) (sy_acceptors \<sigma>)\<rparr>"
    by (auto simp: sys_step_def split: if_splits)
  show ?thesis unfolding \<sigma>' using inv unfolding sys_inv_def owned_def by simp blast
next
  case (Serve d)
  with st obtain x xs where q: "sy_queue \<sigma> = x # xs" "sy_phase \<sigma> = Serving"
    and \<sigma>': "\<sigma>' = serve d x (\<sigma>\<lparr>sy_queue := xs\<rparr>)"
    by (auto simp: sys_step_def split: if_splits list.splits)
  have "sys_inv ps (\<sigma>\<lparr>sy_queue := xs\<rparr>)" "input_in ps x" using inv q by (simp_all add: sys_inv_def owned_def)
  then show ?thesis unfolding \<sigma>' using one q by (intro sys_inv_serve) simp_all
qed

lemma reachable_inv: "reachable ps \<sigma> \<Longrightarrow> one_spelling ps \<Longrightarrow> sys_inv ps \<sigma>"
  by (induction rule: reachable.induct) (auto intro: sys_inv_initial sys_inv_step)

section \<open>The running program\<close>

text \<open>C3: Whatever the order of the turns of the tasks, the registry of a running wiredock is well
  formed, as long as no socket file of a server is named in two spellings; and after it has stopped it
  is empty.\<close>

theorem system_wf:
  assumes "one_spelling ps" and "reachable ps \<sigma>"
  shows "wf_reg (sy_reg \<sigma>) \<and>
     (sy_phase \<sigma> = Stopped \<longrightarrow> streams (sy_reg \<sigma>) = [] \<and> servers (sy_reg \<sigma>) = [])"
  using reachable_inv [OF assms(2,1)] by (simp add: sys_inv_def)

definition sample_actions :: "u8 list sys_action list" where
  "sample_actions =
     [Enter (OpenTcpServer 80) True, Serve sample_deps,
      AcceptTurn 0 (Ok \<lparr>as_stream = [], as_peer_info = TcpSocket ''h:5''\<rparr>),
      Enter (Close ''80'') True]"

definition after_sample :: "u8 list sys_action list \<Rightarrow> u8 list system option" where
  "after_sample as = run_steps sys_step (sample_actions @ as) initial_system"

theorem system_wf_witness:
  "\<exists>\<sigma>. after_sample [Serve sample_deps] = Some \<sigma> \<and> wf_reg (sy_reg \<sigma>)"
proof -
  have "after_sample [Serve sample_deps] \<noteq> None" by code_simp
  then obtain \<sigma> where \<sigma>: "after_sample [Serve sample_deps] = Some \<sigma>" by blast
  moreover have "list_all (permitted {}) (sample_actions @ [Serve sample_deps])"
    by (simp add: sample_actions_def)
  ultimately have "reachable {} \<sigma>"
    using reachable_run reachable.initially unfolding after_sample_def by blast
  with system_wf [of "{}" \<sigma>] \<sigma> show ?thesis by (simp add: one_spelling_def)
qed

text \<open>C5: In a running wiredock the registry task panics exactly when the input that it takes is an
  accepted connection whose server has been closed; the branch for mismatched shapes is never taken.\<close>

theorem system_panics_iff:
  assumes "one_spelling ps" and "reachable ps \<sigma>" and "sys_step (Serve d) \<sigma> = Some \<sigma>'"
  shows "case hd (sy_queue \<sigma>) of
       Accepted par child peer s \<Rightarrow>
         shapes_match par child \<and>
         (sy_phase \<sigma>' = Panicked \<longleftrightarrow> \<not> im_contains (servers (sy_reg \<sigma>)) par)
     | _ \<Rightarrow> sy_phase \<sigma>' \<noteq> Panicked"
proof -
  from assms(3) obtain x xs where q: "sy_queue \<sigma> = x # xs" "sy_phase \<sigma> = Serving"
    and \<sigma>': "\<sigma>' = serve d x (\<sigma>\<lparr>sy_queue := xs\<rparr>)"
    by (auto simp: sys_step_def split: if_splits list.splits)
  have x: "input_in ps x" using reachable_inv [OF assms(2,1)] q by (simp add: sys_inv_def)
  have "sy_phase \<sigma>' = Panicked \<longleftrightarrow> handle_input (d\<lparr>dep_task := sy_next_task \<sigma>\<rparr>) x (sy_reg \<sigma>) = None"
    using q unfolding \<sigma>'
    by (auto simp: Let_def stop_registry_def split: option.splits prod.splits)
  with x q show ?thesis
    by (cases x) (auto simp: handle_accepted_None_iff im_contains_def Let_def split: prod.splits)
qed

theorem system_panics_iff_witness:
  "\<exists>\<sigma> \<sigma>'. after_sample [AcceptTurn 0 (Ok \<lparr>as_stream = [], as_peer_info = TcpSocket ''h:6''\<rparr>),
       Serve sample_deps, Serve sample_deps] = Some \<sigma> \<and>
     sys_step (Serve sample_deps) \<sigma> = Some \<sigma>' \<and> sy_phase \<sigma>' = Panicked"
proof -
  let ?as = "[AcceptTurn 0 (Ok \<lparr>as_stream = [], as_peer_info = TcpSocket ''h:6''\<rparr>),
       Serve sample_deps, Serve sample_deps] :: u8 list sys_action list"
  have "case after_sample ?as of None \<Rightarrow> False
     | Some \<sigma> \<Rightarrow> sys_step (Serve sample_deps) \<sigma> \<noteq> None \<and>
         (case hd (sy_queue \<sigma>) of Accepted par _ _ _ \<Rightarrow> \<not> im_contains (servers (sy_reg \<sigma>)) par | _ \<Rightarrow> False)"
    by code_simp
  then obtain \<sigma> \<sigma>' where \<sigma>: "after_sample ?as = Some \<sigma>" "sys_step (Serve sample_deps) \<sigma> = Some \<sigma>'"
    and hd: "case hd (sy_queue \<sigma>) of Accepted par _ _ _ \<Rightarrow> \<not> im_contains (servers (sy_reg \<sigma>)) par | _ \<Rightarrow> False"
    by (auto split: option.splits)
  have "list_all (permitted {}) (sample_actions @ ?as)" by (simp add: sample_actions_def)
  with \<sigma>(1) have "reachable {} \<sigma>"
    using reachable_run reachable.initially unfolding after_sample_def by blast
  from system_panics_iff [OF _ this \<sigma>(2)] hd have "sy_phase \<sigma>' = Panicked"
    by (auto simp: one_spelling_def split: registry_input.splits)
  with \<sigma> show ?thesis by blast
qed

text \<open>C6: No accept task outlives its server: one that has not been aborted belongs to a registered
  server, and once the registry has stopped all of them have been aborted.\<close>

theorem accept_tasks_owned:
  assumes "one_spelling ps" and "reachable ps \<sigma>" and "(t, i) \<in> set (sy_acceptors \<sigma>)"
    and "t \<notin> set (sy_aborted \<sigma>)"
  shows "sy_phase \<sigma> \<noteq> Stopped \<and> (\<exists>p s. im_get (servers (sy_reg \<sigma>)) p = Some s \<and> sv_accept_task s = t)"
proof -
  have inv: "sys_inv ps \<sigma>" by (rule reachable_inv [OF assms(2,1)])
  with assms(3,4) have t: "t \<in> accept_tasks (sy_reg \<sigma>)" unfolding sys_inv_def owned_def by blast
  then obtain p s where ps: "(p, s) \<in> set (servers (sy_reg \<sigma>))" "sv_accept_task s = t"
    by (auto simp: accept_tasks_def)
  have "im_distinct (servers (sy_reg \<sigma>))" using inv by (simp add: sys_inv_def wf_reg_def wf_core_def)
  from im_get_entry [OF this ps(1)] ps inv show ?thesis by (auto simp: sys_inv_def)
qed

theorem accept_tasks_owned_witness:
  "\<exists>\<sigma> t i. after_sample [] = Some \<sigma> \<and> (t, i) \<in> set (sy_acceptors \<sigma>) \<and> t \<notin> set (sy_aborted \<sigma>) \<and>
     sy_phase \<sigma> \<noteq> Stopped"
proof -
  have "case after_sample [] of None \<Rightarrow> False
     | Some \<sigma> \<Rightarrow> sy_acceptors \<sigma> = [(0, TcpServer 80)] \<and> sy_aborted \<sigma> = []"
    by code_simp
  then obtain \<sigma> where \<sigma>: "after_sample [] = Some \<sigma>"
    and t: "(0, TcpServer 80) \<in> set (sy_acceptors \<sigma>)" "0 \<notin> set (sy_aborted \<sigma>)"
    by (auto split: option.splits)
  have "list_all (permitted {}) sample_actions" by (simp add: sample_actions_def)
  with \<sigma> have "reachable {} \<sigma>"
    using reachable_run [of "sample_actions @ []"] reachable.initially
    unfolding after_sample_def append_Nil2 by blast
  from accept_tasks_owned [OF _ this t] \<sigma> t show ?thesis by (auto simp: one_spelling_def)
qed




text \<open>C8: Two faults that the running program can reach. The registry task panics when a server is
  closed while a connection to it is queued. A read task survives the shutdown of the registry when
  three connections of one base key have been accepted: its stream handle was displaced.\<close>

theorem system_faults:
  "(\<exists>\<sigma> :: u8 list system. reachable {} \<sigma> \<and> sy_phase \<sigma> = Panicked) \<and>
   (\<exists>(\<sigma> :: u8 list system) t i. reachable {} \<sigma> \<and> sy_phase \<sigma> = Stopped \<and> (t, i) \<in> set (sy_readers \<sigma>) \<and>
      t \<notin> set (sy_aborted \<sigma>))"
proof
  let ?a = "AcceptTurn 0 (Ok \<lparr>as_stream = [], as_peer_info = TcpSocket ''h:5''\<rparr>) :: u8 list sys_action"
  let ?s = "Serve sample_deps"
  have perm: "list_all (permitted {}) (sample_actions @ [?a, ?s, ?s, ?s])"
    "list_all (permitted {}) [Enter (OpenTcpServer 80) True, ?s, ?a, ?a, ?a, AskShutdown, ?s, ?s, ?s, ?s]"
    by (simp_all add: sample_actions_def)
  have "case run_steps sys_step (sample_actions @ [?a, ?s, ?s, ?s]) initial_system of None \<Rightarrow> False
     | Some \<sigma> \<Rightarrow> sy_phase \<sigma> = Panicked"
    by code_simp
  with reachable_run [OF _ reachable.initially perm(1)]
  show "\<exists>\<sigma> :: u8 list system. reachable {} \<sigma> \<and> sy_phase \<sigma> = Panicked"
    by (auto split: option.splits)
  have "case run_steps sys_step [Enter (OpenTcpServer 80) True, ?s, ?a, ?a, ?a, AskShutdown, ?s, ?s, ?s, ?s]
       initial_system of None \<Rightarrow> False
     | Some \<sigma> \<Rightarrow> sy_phase \<sigma> = Stopped \<and>
         list_ex (\<lambda>x. fst x \<notin> set (sy_aborted \<sigma>)) (sy_readers \<sigma>)"
    by code_simp
  with reachable_run [OF _ reachable.initially perm(2)]
  show "\<exists>(\<sigma> :: u8 list system) t i. reachable {} \<sigma> \<and> sy_phase \<sigma> = Stopped \<and> (t, i) \<in> set (sy_readers \<sigma>) \<and>
      t \<notin> set (sy_aborted \<sigma>)"
    by (auto simp: list_ex_iff split: option.splits) blast
qed

section \<open>Reaching the end\<close>

fun is_accepted :: "'s registry_input \<Rightarrow> bool" where
  "is_accepted (Accepted _ _ _ _) = True"
| "is_accepted _ = False"

lemma serve_phase:
  assumes "sy_phase \<sigma> = Serving"
  shows "(case x of
       Shutdown \<Rightarrow> sy_phase (serve d x \<sigma>) = Stopped
     | Accepted _ _ _ _ \<Rightarrow> sy_phase (serve d x \<sigma>) = Panicked \<or>
         sy_phase (serve d x \<sigma>) = Serving \<and> sy_queue (serve d x \<sigma>) = sy_queue \<sigma>
     | _ \<Rightarrow> sy_phase (serve d x \<sigma>) = Serving \<and> sy_queue (serve d x \<sigma>) = sy_queue \<sigma>)"
  using assms
  by (cases x) (auto simp: Let_def stop_registry_def split: option.splits prod.splits)

text \<open>The turns of the registry task in a run. After it has ended it has none.\<close>

fun is_serve :: "'s sys_action \<Rightarrow> bool" where
  "is_serve (Serve d) = True"
| "is_serve _ = False"

definition serve_turns :: "'s sys_action list \<Rightarrow> nat" where
  "serve_turns as = length (filter is_serve as)"

lemma serve_turns_simps [simp]:
  "serve_turns [] = 0" "serve_turns (a # as) = (if is_serve a then Suc (serve_turns as) else serve_turns as)"
  by (simp_all add: serve_turns_def)

text \<open>The inputs that the registry task takes before a queued request to shut down.\<close>

definition ahead_of_shutdown :: "'s system \<Rightarrow> 's registry_input list" where
  "ahead_of_shutdown \<sigma> = takeWhile (\<lambda>x. x \<noteq> Shutdown) (sy_queue \<sigma>)"

lemma serve_enabled:
  "sy_phase \<sigma> = Serving \<Longrightarrow> Shutdown \<in> set (sy_queue \<sigma>) \<Longrightarrow> sys_step (Serve d) \<sigma> \<noteq> None"
  by (cases "sy_queue \<sigma>") (simp_all add: sys_step_def del: serve.simps)

lemma other_turn:
  assumes "sys_step a \<sigma> = Some \<sigma>1" and "\<not> is_serve a"
  shows "sy_phase \<sigma>1 = sy_phase \<sigma> \<and> (\<exists>xs. sy_queue \<sigma>1 = sy_queue \<sigma> @ xs)"
  using assms
  by (cases a) (auto simp: sys_step_def deliver_def split: if_splits prod.splits)

lemma ended_run:
  "run_steps sys_step as \<sigma> = Some \<sigma>' \<Longrightarrow> sy_phase \<sigma> \<noteq> Serving \<Longrightarrow>
   sy_phase \<sigma>' = sy_phase \<sigma> \<and> serve_turns as = 0"
proof (induction as arbitrary: \<sigma>)
  case (Cons a as)
  from Cons.prems(1) obtain \<sigma>1 where st: "sys_step a \<sigma> = Some \<sigma>1" and run: "run_steps sys_step as \<sigma>1 = Some \<sigma>'"
    by (auto simp: bind_eq_Some_conv)
  have "\<not> is_serve a"
    using st Cons.prems(2) by (cases a) (auto simp: sys_step_def split: if_splits list.splits)
  with other_turn [OF st this] Cons.IH [OF run] Cons.prems(2) show ?case by simp
qed simp

lemma serve_turn:
  assumes "sys_step a \<sigma> = Some \<sigma>1" and "is_serve a" and "sy_phase \<sigma> = Serving" and q: "sy_queue \<sigma> = x # xs"
  shows "case sy_phase \<sigma>1 of
      Serving \<Rightarrow> x \<noteq> Shutdown \<and> sy_queue \<sigma>1 = xs | Stopped \<Rightarrow> x = Shutdown | Panicked \<Rightarrow> is_accepted x"
proof -
  from assms obtain d where "\<sigma>1 = serve d x (\<sigma>\<lparr>sy_queue := xs\<rparr>)"
    by (cases a) (auto simp: sys_step_def split: if_splits)
  with serve_phase [of "\<sigma>\<lparr>sy_queue := xs\<rparr>" d x] assms(3) show ?thesis
    by (cases x) (auto simp del: serve.simps)
qed

lemma turns_until_shutdown:
  "run_steps sys_step as \<sigma> = Some \<sigma>' \<Longrightarrow> sy_phase \<sigma> = Serving \<Longrightarrow> sy_queue \<sigma> = q @ Shutdown # ys \<Longrightarrow>
   Shutdown \<notin> set q \<Longrightarrow>
   case sy_phase \<sigma>' of
     Serving \<Rightarrow> serve_turns as \<le> length q \<and> (\<exists>zs. sy_queue \<sigma>' = drop (serve_turns as) q @ Shutdown # zs)
   | Stopped \<Rightarrow> serve_turns as = Suc (length q)
   | Panicked \<Rightarrow> \<exists>n<length q. serve_turns as = Suc n \<and> is_accepted (q ! n)"
proof (induction as arbitrary: \<sigma> q ys)
  case (Cons a as)
  from Cons.prems(1) obtain \<sigma>1 where st: "sys_step a \<sigma> = Some \<sigma>1" and run: "run_steps sys_step as \<sigma>1 = Some \<sigma>'"
    by (auto simp: bind_eq_Some_conv)
  show ?case
  proof (cases "is_serve a")
    case False
    from other_turn [OF st this] Cons.prems obtain zs where
      "sy_phase \<sigma>1 = Serving" "sy_queue \<sigma>1 = q @ Shutdown # zs" by auto
    from Cons.IH [OF run this Cons.prems(4)] False show ?thesis by (simp cong: phase.case_cong)
  next
    case True
    show ?thesis
    proof (cases q)
      case Nil
      then have "sy_phase \<sigma>1 = Stopped"
        using serve_turn [OF st True Cons.prems(2), of Shutdown ys] Cons.prems(3)
        by (simp split: phase.splits)
      with ended_run [OF run] True Nil show ?thesis by simp
    next
      case (Cons x q')
      with Cons.prems have x: "x \<noteq> Shutdown" "Shutdown \<notin> set q'" and q: "sy_queue \<sigma> = x # q' @ Shutdown # ys"
        by auto
      note served = serve_turn [OF st True Cons.prems(2) q]
      show ?thesis
      proof (cases "sy_phase \<sigma>1")
        case Serving
        with served have "sy_queue \<sigma>1 = q' @ Shutdown # ys" by simp
        from Cons.IH [OF run Serving this x(2)] True Cons show ?thesis
          by (auto split: phase.splits)
      next
        case Stopped
        with served x show ?thesis by simp
      next
        case Panicked
        with served ended_run [OF run] True Cons show ?thesis by auto
      qed
    qed
  qed
qed simp

text \<open>C7: Once a request to shut down is queued, whatever the order of the turns of the tasks and
  whatever the transports answer in each, the registry task completes at most one turn for each input
  ahead of the request and then the one that stops it, with an empty registry and every accept task
  aborted. Until then it is never without an input to take. It ends earlier only in a panic on an
  accepted connection ahead of the request. A turn is one that completes: a handler that waits
  forever in one of its awaits is a run with no further turn of the registry task, in which the
  request stays queued.\<close>

theorem shutdown_is_served:
  assumes "one_spelling ps" and "reachable ps \<sigma>"
    and "sy_phase \<sigma> = Serving" and "Shutdown \<in> set (sy_queue \<sigma>)"
    and "list_all (permitted ps) as" and "run_steps sys_step as \<sigma> = Some \<sigma>'"
  shows "case sy_phase \<sigma>' of
      Serving \<Rightarrow> serve_turns as \<le> length (ahead_of_shutdown \<sigma>) \<and> Shutdown \<in> set (sy_queue \<sigma>') \<and>
        (\<forall>d. sys_step (Serve d) \<sigma>' \<noteq> None)
    | Stopped \<Rightarrow> serve_turns as = Suc (length (ahead_of_shutdown \<sigma>)) \<and>
        streams (sy_reg \<sigma>') = [] \<and> servers (sy_reg \<sigma>') = [] \<and>
        fst ` set (sy_acceptors \<sigma>') \<subseteq> set (sy_aborted \<sigma>')
    | Panicked \<Rightarrow> \<exists>n<length (ahead_of_shutdown \<sigma>). serve_turns as = Suc n \<and>
        is_accepted (ahead_of_shutdown \<sigma> ! n)"
proof -
  let ?q = "ahead_of_shutdown \<sigma>"
  obtain xs ys where q: "sy_queue \<sigma> = xs @ Shutdown # ys" and no: "Shutdown \<notin> set xs"
    using assms(4) by (blast dest: split_list_first)
  then have "takeWhile (\<lambda>x. x \<noteq> Shutdown) xs = xs" by (auto intro: takeWhile_eq_all_conv [THEN iffD2])
  with q have xs: "?q = xs" by (simp add: ahead_of_shutdown_def takeWhile_tail)
  note turns = turns_until_shutdown [OF assms(6,3) q no]
  have inv: "sys_inv ps \<sigma>'" by (rule reachable_inv [OF reachable_run [OF assms(6,2,5)] assms(1)])
  have "fst ` set (sy_acceptors \<sigma>') \<subseteq> set (sy_aborted \<sigma>')" if "servers (sy_reg \<sigma>') = []"
    using inv that unfolding sys_inv_def owned_def by (auto simp: accept_tasks_def)
  with turns inv serve_enabled [of \<sigma>'] show ?thesis
    unfolding xs by (auto simp: sys_inv_def split: phase.splits)
qed

text \<open>The request is asked for with two inputs ahead of it; then another connection arrives.\<close>

theorem shutdown_is_served_witness:
  "\<exists>\<sigma> as \<sigma>'. after_sample [AskShutdown] = Some \<sigma> \<and> run_steps sys_step as \<sigma> = Some \<sigma>' \<and>
     \<not> list_all is_serve as \<and> sy_phase \<sigma>' = Stopped \<and> serve_turns as = 3 \<and> streams (sy_reg \<sigma>') = []"
proof -
  let ?as = "[Serve sample_deps, AcceptTurn 0 (Ok \<lparr>as_stream = [], as_peer_info = TcpSocket ''h:6''\<rparr>),
       Serve sample_deps, Serve sample_deps] :: u8 list sys_action list"
  have "case after_sample [AskShutdown] of None \<Rightarrow> False
     | Some \<sigma> \<Rightarrow> sy_phase \<sigma> = Serving \<and> length (ahead_of_shutdown \<sigma>) = 2 \<and> Shutdown \<in> set (sy_queue \<sigma>) \<and>
         (case run_steps sys_step ?as \<sigma> of None \<Rightarrow> False | Some \<sigma>' \<Rightarrow> sy_phase \<sigma>' = Stopped)"
    by code_simp
  then obtain \<sigma> \<sigma>' where \<sigma>: "after_sample [AskShutdown] = Some \<sigma>" "sy_phase \<sigma> = Serving"
    "length (ahead_of_shutdown \<sigma>) = 2" "Shutdown \<in> set (sy_queue \<sigma>)"
    and \<sigma>': "run_steps sys_step ?as \<sigma> = Some \<sigma>'" "sy_phase \<sigma>' = Stopped"
    by (auto simp del: run_steps.simps split: option.splits)
  have "list_all (permitted {}) (sample_actions @ [AskShutdown])" by (simp add: sample_actions_def)
  with \<sigma>(1) have "reachable {} \<sigma>"
    using reachable_run reachable.initially unfolding after_sample_def by blast
  from shutdown_is_served [OF _ this \<sigma>(2,4) _ \<sigma>'(1)] \<sigma> \<sigma>'(2)
  have "serve_turns ?as = 3 \<and> streams (sy_reg \<sigma>') = []" by (simp add: one_spelling_def)
  with \<sigma>(1) \<sigma>' show ?thesis by (intro exI [of _ \<sigma>] exI [of _ ?as] exI [of _ \<sigma>']) simp
qed

end
