(* ===== verification/Spec2Isabelle.thy ===== *)
theory Spec2Isabelle
  imports Codec_Properties Registry_Properties Send_Properties Accept_Properties Cli_Properties
    Infra Abstract_Machine Status_Properties System
begin

text \<open>
  A verification development for wiredock, an interactive tool that opens TCP and Unix-domain
  servers and clients, sends bytes to them and shows what they receive. File and function names
  below are those under \<open>src/src/\<close>.

  \<^bold>\<open>The program.\<close> One task, \<open>run_registry\<close>, owns the state of all connections (\<open>Registry\<close>) and takes
  its inputs from one channel: commands of the user, events of the read tasks, connections of the accept
  tasks, and the request to shut down. The input loop parses the lines that are typed and waits for
  the answer to each. A read task per connection forwards what it reads, and an accept task per server
  what it accepts. The transports are traits with one implementation over tokio. \<open>main\<close> starts the
  tasks and waits for Ctrl+C or for the end of the registry task.

  \<^bold>\<open>Theories and sources.\<close>

  \<^item> \<open>Prelude\<close>: abbreviations, results (\<open>Ok\<close>, \<open>Err\<close>, \<open>and_then\<close>), runs of a step function and the
    locales \<open>step_invariant\<close> and \<open>simulation\<close>. \<open>Rust_Text\<close>: the string functions of Rust's standard library that the
    code calls, printing and parsing of integers, components of a path.
  \<^item> \<open>Domain_Error\<close> (the three \<open>error.rs\<close>), \<open>Hex\<close> (\<open>domain/hex.rs\<close>), \<open>Conn_Id\<close> (\<open>domain/id.rs\<close>),
    \<open>Messages\<close> (\<open>event.rs\<close>, \<open>command.rs\<close>, \<open>endpoint.rs\<close>, \<open>state.rs\<close>, \<open>transport.rs\<close> of \<open>domain\<close>).
  \<^item> \<open>Id_Map\<close>: \<open>HashMap\<close> and \<open>HashSet\<close> over identifiers, with the locales \<open>id_dict\<close> and \<open>id_set\<close> for
    what the registry relies on. \<open>Registry\<close>, \<open>Status\<close>, \<open>Token_Parser\<close>: \<open>domain/registry.rs\<close>.
  \<^item> \<open>Runtime\<close>: \<open>repl/runtime.rs\<close>, one definition per arm of \<open>handle_command\<close>, the handlers of
    events and accepted connections, the main loop, the bodies of the read and accept tasks.
  \<^item> \<open>Line_Parser\<close>: \<open>repl/parser.rs\<close>. \<open>Cli\<close>: \<open>repl/args.rs\<close>, \<open>infra/logger.rs\<close>, \<open>repl/input.rs\<close>,
    \<open>repl/display.rs\<close>, \<open>main.rs\<close>. \<open>Infra\<close>: \<open>connector.rs\<close>, \<open>listener.rs\<close>, \<open>peercred.rs\<close>, \<open>fs_cleanup.rs\<close> of \<open>infra\<close>.
  \<^item> \<open>System\<close>: the tasks together on the channel, one turn of one task at a time, in any order.

  \<^bold>\<open>What the lemmas show.\<close>

  \<^item> \<open>Registry_Views\<close> says what each operation does to each map of the registry. \<open>Invariant\<close> and
    \<open>Preserve\<close> define \<open>wf_reg\<close> (keys, parents and children, suffix tables, labels) and show that
    the operations keep it; \<open>Runtime_Facts\<close> does so for the handlers and for runs, through the
    locale \<open>step_invariant\<close>. \<open>Tame\<close> has three smaller invariants (child sets without
    duplicates, sequence numbers of IPC clients, the socket files of the servers), and \<open>Accept_Tasks\<close>
    the ownership of accept tasks.
  \<^item> \<open>Registry_Properties\<close>: preservation and reachability, panics, setting a label, closing, shutdown.
    \<open>Accept_Properties\<close>: identifiers of accepted connections, collisions, read tasks.
    \<open>Send_Properties\<close>: writes, broadcasts, IPC clients. \<open>Status_Properties\<close>: the status text.
  \<^item> \<open>Codec_Properties\<close>: the hex parser against a reference decoder, round trips of bytes, commands,
    addresses and identifiers, which identifiers a token can stand for, and which connections are reached
    by the name they are displayed with.
  \<^item> \<open>Refinement\<close>: the operations of the registry implement operations on a map from identifiers to
    their parent and label. \<open>Abstract_Machine\<close>: every input is simulated by steps of a relation on this
    map (the locale \<open>simulation\<close>), and the relation keeps parents registered and labels unique.
  \<^item> \<open>Cli_Properties\<close>: arguments, input loop. \<open>Infra\<close>: errors of the transports, which are the
    contract of the locale \<open>transports\<close> that the open commands are proved against, and what a failed open
    command leaves behind.
  \<^item> \<open>System\<close>: the invariant in every interleaving, exactly when the registry task panics, accept tasks
    never outlive their server, a label leads to its carrier, how many turns a request to shut down takes,
    and two faults that a run can reach.
  \<^item> \<open>Samples\<close>: a registry reached by a run, at which properties with hypotheses are applied.

  \<^bold>\<open>How the code is modelled.\<close>

  \<^item> Strings are lists of the characters up to 255; \<open>char::is_whitespace\<close> and the case of digits are those
    of Rust on that range. Paths are strings, equal when Rust's \<open>PathBuf\<close> says so: \<open>path_key\<close> computes the
    components, and \<open>same_id\<close> compares identifiers by it.
  \<^item> A \<open>HashMap\<close> over identifiers is a list of entries; an insert over an equal key keeps the key that is
    stored, as Rust does. The order of the entries stands for the iteration order, which is arbitrary in
    Rust; where it shows, the properties do not fix it, and \<open>status_order_irrelevant\<close> shows that the status text
    does not depend on it. Label map and suffix tables are partial maps.
  \<^item> Integers have their width. \<open>this_n + 1\<close> wraps around, as in the release profile;
    \<open>saturating_add\<close> saturates.
  \<^item> A fallible function returns a sum, an error on the left. A panic of a handler is \<open>None\<close>, and in
    \<open>System\<close> the phase \<open>Panicked\<close>: the release profile aborts the process.
  \<^item> What an operation does outside the registry is a list of effects in order: lines sent to the display, tasks
    spawned and aborted, streams dropped, files removed, replies, log lines.
  \<^item> Calls into tokio and reedline are parameters: \<open>net_ops\<close> (sockets), \<open>stream_ops\<close> (writing), \<open>deps\<close> (what a
    handler gets from its transports and from \<open>tokio::spawn\<close>), the signals that the line editor
    returns, each with the answer of the registry to the command in it, the winner of the \<open>select\<close> in \<open>main\<close>.
  \<^item> A bind answers together with the files that it has removed before, which an IPC bind does also when
    it fails.
  \<^item> A call that the code awaits returns here. A handler that waits forever, for a peer that does not read, for
    a connect without an answer or for a full display channel, appears in \<open>System\<close> as a run in which the registry task
    has no further turn. \<open>shutdown_is_served\<close> therefore counts turns and does not say that they come.
  \<^item> The loops of the code over data are structural recursions, so that no fuel is needed. The loops of
    the tasks are recursions over the inputs that arrive.

  \<^bold>\<open>Bounds of the properties.\<close> \<open>reachable_wf\<close> has the hypothesis \<open>well_addressed\<close>: an accepted connection
  names the socket file of its server in the spelling the server was opened with. In \<open>System\<close> this follows
  from \<open>one_spelling\<close>: the user never names one socket file in two spellings. The channels are
  unbounded in the model; a full channel only delays its sender.

  \<^bold>\<open>Not modelled.\<close> The trait alias in \<open>domain/io.rs\<close>, the \<open>Debug\<close> text of \<open>RegistryInput\<close>, the lock of the logger, the reading of the
  process arguments, and the capacity of the channels.
\<close>

end
